theory Spec2Isabelle
  imports Complex_Main
begin

text \<open>
  Python floats are IEEE 754 doubles. Where the scripts only pass floats on to the host
  (coordinates, angles, sizes), a float is modelled as the real number it is meant to be. The
  derivation of the second flow colour truncates floats to integers, so its result depends on
  the rounding of every operation: there each operation is modelled with its rounding
  (section "Floating-point arithmetic").
\<close>

section \<open>Python values and errors\<close>

text \<open>
  The scripts run under GIMP 2.10's Python-Fu, which is Python 2: \<open>/\<close> between two
  integers is floor division, between floats it is true division. Spinner parameters
  (\<open>PF_SPINNER\<close>) arrive as floats, option parameters (\<open>PF_OPTION\<close>) as integers.
\<close>

datatype error = IndexError | TypeError | ZeroDivisionError

text \<open>\<open>int(x)\<close> on a float truncates towards zero.\<close>

definition py_int :: "real \<Rightarrow> int" where
  "py_int x = (if 0 \<le> x then \<lfloor>x\<rfloor> else \<lceil>x\<rceil>)"

text \<open>Sequencing of fallible steps: the first error ends the run, as an exception does.\<close>

definition and_then :: "error + 'a \<Rightarrow> ('a \<Rightarrow> error + 'b) \<Rightarrow> error + 'b" where
  "and_then m f = (case m of Inl e \<Rightarrow> Inl e | Inr x \<Rightarrow> f x)"

text \<open>\<open>for i in range(n)\<close> over a loop state, stopping at the first error.\<close>

fun for_each :: "nat list \<Rightarrow> (nat \<Rightarrow> 'a \<Rightarrow> error + 'a) \<Rightarrow> 'a \<Rightarrow> error + 'a" where
  "for_each [] body s = Inr s"
| "for_each (i # ns) body s = and_then (body i s) (for_each ns body)"

definition py_range :: "nat \<Rightarrow> nat list" where
  "py_range n = [0..<n]"

section \<open>The host's procedure calls\<close>

text \<open>
  The scripts act only through calls of GIMP's procedure database. A run is modelled by the
  sequence of calls it makes, each with the arguments that matter here; image and layer
  handles are left out.
\<close>

type_synonym color = "int \<times> int \<times> int"

datatype channel_op = CHANNEL_OP_ADD | CHANNEL_OP_SUBTRACT | CHANNEL_OP_REPLACE

datatype layer_mode = LAYER_MODE_NORMAL | LAYER_MODE_DIFFERENCE

datatype fill_material = BUCKET_FILL_FG | BUCKET_FILL_PATTERN

datatype mask_type = ADD_MASK_SELECTION | ADD_MASK_ALPHA

datatype cmd =
    gimp_context_push
  | gimp_context_pop
  | gimp_context_set_antialias bool
  | gimp_context_set_feather bool
  | gimp_context_set_foreground color
  | gimp_context_set_gradient string
  | gimp_context_set_pattern string
  | gimp_Image int int
  | gimp_display_new
  | gimp_displays_flush
  | gimp_image_undo_group_start
  | gimp_image_undo_group_end
  | gimp_layer_new int int string layer_mode
  | image_add_layer int
  | gimp_layer_copy
  | layer_set_name string
  | layer_merge_shadow
  | layer_flush
  | gimp_image_get_layer_by_name string
  | gimp_image_remove_layer
  | gimp_item_set_visible bool
  | gimp_image_select_ellipse channel_op real real real real
  | gimp_image_select_rectangle channel_op real real real real
  | gimp_image_select_color channel_op color
  | gimp_selection_none
  | gimp_edit_bucket_fill fill_material
  | gimp_drawable_fill
  | gimp_drawable_edit_gradient_fill real real real real
  | gimp_drawable_invert
  | gimp_image_merge_visible_layers
  | gimp_image_merge_down
  | gimp_layer_create_mask mask_type
  | gimp_layer_add_mask
  | plug_in_colortoalpha color
  | gimp_gradient_new string
  | gimp_gradient_segment_set_left_color color
  | gimp_gradient_segment_set_right_color color
  | gimp_gradient_segment_range_set_blending_function
  | gimp_gradient_segment_range_set_coloring_type
  | gimp_gradient_delete string
  | gimp_image_scale_full int int
  | gimp_image_crop int int
  | gimp_item_transform_flip_simple
  | gimp_item_transform_rotate real real real
  | gimp_message_get_handler
  | gimp_message_set_handler
  | gimp_message "color list"

section \<open>Draw-Flower-Of-Life-v1.01.py\<close>

subsection \<open>Constants\<close>

definition BLACK :: color where "BLACK = (0, 0, 0)"
definition WHITE :: color where "WHITE = (255, 255, 255)"

definition BASE :: string where "BASE = ''Base''"
definition MASK :: string where "MASK = ''Mask''"
definition COLOR_LAYER :: string where "COLOR_LAYER = ''Color-Layer''"
definition GRADIENT :: string where "GRADIENT = ''Gradient''"

definition DEGREE_60 :: real where "DEGREE_60 = 1.0472"
definition DEGREE_120 :: real where "DEGREE_120 = 2.0944"
definition DEGREE_180 :: real where "DEGREE_180 = 3.14159"
definition DEGREE_240 :: real where "DEGREE_240 = 4.18879"
definition DEGREE_300 :: real where "DEGREE_300 = 5.23599"

definition LINES :: int where "LINES = 0"
definition PETALS :: int where "PETALS = 1"
definition CIRCLES :: int where "CIRCLES = 2"

definition RING_COLORS_COUNT :: nat where "RING_COLORS_COUNT = 7"

definition RANDOM_COLORS :: int where "RANDOM_COLORS = 2"

definition SCALE :: int where "SCALE = 2"

subsection \<open>The global variables\<close>

text \<open>
  The module's globals. \<open>ring_center\<close> and \<open>extra_ring\<close> are the fixed-size lists
  \<open>[0] * 6\<close> and \<open>[0] * 12\<close>; a slot holds \<open>None\<close> until a point has been stored in
  it (unpacking the initial \<open>0\<close> as a point raises \<open>TypeError\<close>). \<open>trace\<close> is the
  sequence of host calls made so far, \<open>rng_calls\<close> the number of calls of
  \<open>random.randint\<close> so far, and \<open>extra_ring_reads\<close> records the indices at which
  \<open>draw_6th_ring\<close> has read \<open>extra_ring\<close>.
\<close>

type_synonym point = "real \<times> real"

record flower =
  image_size :: int
  image_center :: int
  image_focus :: point
  circle_diameter :: int
  circle_radius :: int
  frame_width :: int
  flower_radius :: int
  flower_type :: int
  line_width :: int
  ring_colors :: "color list"
  frame_color :: color
  color_mode :: int
  ring_center :: "point option list"
  extra_ring :: "point option list"
  extra_ring_reads :: "nat list"
  rng_calls :: nat
  trace :: "cmd list"

definition emit :: "cmd list \<Rightarrow> flower \<Rightarrow> flower" where
  "emit cs s = s\<lparr>trace := trace s @ cs\<rparr>"

text \<open>Reading and writing a slot of the two recycled lists, with Python's checks.\<close>

definition get_slot :: "point option list \<Rightarrow> nat \<Rightarrow> error + point" where
  "get_slot xs i =
     (if i < length xs
      then (case xs ! i of None \<Rightarrow> Inl TypeError | Some p \<Rightarrow> Inr p)
      else Inl IndexError)"

definition set_slot :: "point option list \<Rightarrow> nat \<Rightarrow> point \<Rightarrow> error + point option list" where
  "set_slot xs i p = (if i < length xs then Inr (xs[i := Some p]) else Inl IndexError)"

definition get_color :: "color list \<Rightarrow> nat \<Rightarrow> error + color" where
  "get_color cs i = (if i < length cs then Inr (cs ! i) else Inl IndexError)"

text \<open>\<open>c[j] = v\<close> on a colour.\<close>

definition set_component :: "color \<Rightarrow> nat \<Rightarrow> int \<Rightarrow> error + color" where
  "set_component c j v =
     (case c of (r, g, b) \<Rightarrow>
        if j = 0 then Inr (v, g, b)
        else if j = 1 then Inr (r, v, b)
        else if j = 2 then Inr (r, g, v)
        else Inl IndexError)"

subsection \<open>Geometry\<close>

definition get_point_on_circle :: "point \<Rightarrow> real \<Rightarrow> real \<Rightarrow> point" where
  "get_point_on_circle focus_point angle radius =
     (let x = (sin angle * radius) + fst focus_point;
          y = (cos angle * (- radius)) + snd focus_point
      in (x, y))"

subsection \<open>Layers, selections and fills\<close>

definition make_new_layer :: "string \<Rightarrow> bool \<Rightarrow> bool \<Rightarrow> flower \<Rightarrow> flower" where
  "make_new_layer layer_name normal offset s =
     (let mode = (if normal then LAYER_MODE_NORMAL else LAYER_MODE_DIFFERENCE)
      in emit [gimp_layer_new (image_size s) (image_size s) layer_name mode,
               image_add_layer (0 - (if offset then 1 else 0))] s)"

definition fill_circle :: "color \<Rightarrow> flower \<Rightarrow> flower" where
  "fill_circle color s =
     emit [gimp_context_set_foreground color, gimp_edit_bucket_fill BUCKET_FILL_FG] s"

definition fill_layer :: "color \<Rightarrow> flower \<Rightarrow> flower" where
  "fill_layer color s = emit [gimp_context_set_foreground color, gimp_drawable_fill] s"

definition draw_circle_selection :: "real \<Rightarrow> real \<Rightarrow> flower \<Rightarrow> flower" where
  "draw_circle_selection x y s =
     emit [gimp_image_select_ellipse CHANNEL_OP_ADD x y
             (of_int (circle_diameter s)) (of_int (circle_diameter s))] s"

definition draw_flower_circle :: "real \<Rightarrow> real \<Rightarrow> color \<Rightarrow> flower \<Rightarrow> flower" where
  "draw_flower_circle x0 y0 color s =
     (let x = x0 - of_int (circle_radius s);
          y = y0 - of_int (circle_radius s);
          s1 =
            (if flower_type s = LINES
             then
               (let s2 = make_new_layer ''Circle'' True False s;
                    x1 = x - of_int (line_width s div 2);
                    y1 = y - of_int (line_width s div 2);
                    dim1 = circle_diameter s + line_width s;
                    dim2 = circle_diameter s - line_width s;
                    s3 = emit [gimp_image_select_ellipse CHANNEL_OP_ADD x1 y1
                                 (of_int dim1) (of_int dim1)] s2;
                    x2 = x1 + of_int (line_width s);
                    y2 = y1 + of_int (line_width s);
                    s4 = emit [gimp_image_select_ellipse CHANNEL_OP_SUBTRACT x2 y2
                                 (of_int dim2) (of_int dim2)] s3
                in fill_circle color s4)
             else
               (let s2 = make_new_layer ''Circle'' False False s;
                    s3 = draw_circle_selection x y s2
                in fill_circle color s3))
      in emit [gimp_selection_none] s1)"

definition draw_center_circle :: "color \<Rightarrow> flower \<Rightarrow> flower" where
  "draw_center_circle color s =
     (let p = of_int (image_center s) in draw_flower_circle p p color s)"

definition draw_frame :: "color \<Rightarrow> flower \<Rightarrow> flower" where
  "draw_frame color s =
     (if frame_width s \<noteq> 0
      then
        (let flower_dim0 = flower_radius s * 2;
             frame_dim0 = flower_dim0 + frame_width s * 2;
             x0 = image_center s - flower_radius s - frame_width s;
             lines = (flower_type s = LINES);
             flower_dim = (if lines then flower_dim0 + line_width s else flower_dim0);
             frame_dim = (if lines then frame_dim0 + line_width s else frame_dim0);
             x1 = (if lines then x0 - line_width s div 2 else x0);
             s1 = emit [gimp_image_select_ellipse CHANNEL_OP_ADD (of_int x1) (of_int x1)
                          (of_int frame_dim) (of_int frame_dim)] s;
             x2 = image_center s - flower_radius s;
             x3 = (if lines then x2 - line_width s div 2 else x2);
             s2 = emit [gimp_image_select_ellipse CHANNEL_OP_SUBTRACT (of_int x3) (of_int x3)
                          (of_int flower_dim) (of_int flower_dim)] s1;
             s3 = make_new_layer ''Frame'' True False s2;
             s4 = fill_circle color s3
         in emit [gimp_image_merge_down, gimp_selection_none] s4)
      else s)"

subsection \<open>The six rings\<close>

text \<open>
  The loop of \<open>draw_1st_ring\<close>, with its local variables \<open>x\<close>, \<open>y\<close> and \<open>angle\<close> as
  they stand when the loop ends.
\<close>

definition draw_1st_ring_loop :: "color \<Rightarrow> flower \<Rightarrow> error + (real \<times> real \<times> real \<times> flower)" where
  "draw_1st_ring_loop color s =
     for_each (py_range 6)
       (\<lambda>i (x, y, angle, s).
          let s1 = draw_flower_circle x y color s;
              angle1 = angle + DEGREE_60;
              p = get_point_on_circle (image_focus s1) angle1 (of_int (circle_radius s1))
          in Inr (fst p, snd p, angle1, s1))
       (of_int (image_center s), of_int (image_center s - circle_radius s), 0, s)"

definition draw_1st_ring :: "color \<Rightarrow> flower \<Rightarrow> error + flower" where
  "draw_1st_ring color s =
     and_then (draw_1st_ring_loop color s) (\<lambda>(x, y, angle, s1). Inr s1)"

definition draw_2nd_ring :: "color \<Rightarrow> flower \<Rightarrow> error + flower" where
  "draw_2nd_ring color s =
     (let ring_radius = circle_radius s * 2
      in and_then
           (for_each (py_range 6)
              (\<lambda>i (x, y, angle, s).
                 let s1 = draw_flower_circle x y color s;
                     angle1 = angle + DEGREE_60;
                     p = get_point_on_circle (image_focus s1) angle1 (of_int ring_radius)
                 in Inr (fst p, snd p, angle1, s1))
              (of_int (image_center s), of_int (image_center s - ring_radius), 0, s))
           (\<lambda>(x, y, angle, s1). Inr s1))"

definition draw_3rd_ring :: "color \<Rightarrow> flower \<Rightarrow> error + flower" where
  "draw_3rd_ring color s =
     and_then
       (for_each (py_range 6)
          (\<lambda>i (angle1, angle2, s).
             let p = get_point_on_circle (image_focus s) angle1 (of_int (circle_radius s));
                 q = get_point_on_circle p angle2 (of_int (circle_radius s))
             in and_then (set_slot (ring_center s) i q)
                  (\<lambda>rc. let s1 = s\<lparr>ring_center := rc\<rparr>;
                            s2 = draw_flower_circle (fst q) (snd q) color s1
                        in Inr (angle1 + DEGREE_60, angle2 + DEGREE_60, s2)))
          (0, DEGREE_60, s))
       (\<lambda>(angle1, angle2, s1). Inr s1)"

definition draw_4th_ring :: "color \<Rightarrow> flower \<Rightarrow> error + flower" where
  "draw_4th_ring color s =
     and_then
       (for_each (py_range 6)
          (\<lambda>i (angle1, angle2, s).
             and_then (get_slot (ring_center s) i)
               (\<lambda>ab. let p = get_point_on_circle ab angle1 (of_int (circle_radius s));
                         s1 = draw_flower_circle (fst p) (snd p) color s;
                         q = get_point_on_circle ab angle2 (of_int (circle_radius s1));
                         s2 = draw_flower_circle (fst q) (snd q) color s1
                     in Inr (angle1 + DEGREE_60, angle2 + DEGREE_60, s2)))
          (0, DEGREE_60, s))
       (\<lambda>(angle1, angle2, s1). Inr s1)"

definition draw_5th_ring :: "color \<Rightarrow> flower \<Rightarrow> error + flower" where
  "draw_5th_ring color s =
     (let radius = circle_radius s * 3
      in and_then
           (for_each (py_range 6)
              (\<lambda>i (angle, s).
                 let p = get_point_on_circle (image_focus s) angle (of_int radius);
                     angle1 = angle + DEGREE_60
                 in Inr (angle1, draw_flower_circle (fst p) (snd p) color s))
              (0, s))
           (\<lambda>(angle, s1). Inr s1))"

text \<open>
  The body shared by the three perimeter passes of \<open>draw_6th_ring\<close>: read
  \<open>extra_ring[i + k]\<close>, rotate twice, draw the circle.
\<close>

definition perimeter_circle :: "nat \<Rightarrow> nat \<Rightarrow> real \<Rightarrow> real \<Rightarrow> color \<Rightarrow> flower \<Rightarrow> error + flower" where
  "perimeter_circle i k angle1 angle2 color s =
     and_then (get_slot (extra_ring s) (i + k))
       (\<lambda>ab. let s1 = s\<lparr>extra_ring_reads := extra_ring_reads s @ [i + k]\<rparr>;
                 cd = get_point_on_circle ab angle1 (of_int (circle_radius s1));
                 xy = get_point_on_circle cd angle2 (of_int (circle_radius s1))
             in Inr (draw_flower_circle (fst xy) (snd xy) color s1))"

text \<open>
  One perimeter pass: \<open>for j in range(2): k = ks[j]; for i in range(3): ...\<close>. In the
  third pass (\<open>clamp\<close>) the inner body starts with \<open>if i + k > 11: i = k = 0\<close>; the
  assignment to \<open>k\<close> lasts until the outer loop sets \<open>k\<close> again.
\<close>

definition perimeter_pass ::
    "bool \<Rightarrow> nat list \<Rightarrow> real \<Rightarrow> real \<Rightarrow> color \<Rightarrow> flower \<Rightarrow> error + flower" where
  "perimeter_pass clamp ks a1 a2 color s =
     and_then
       (for_each (py_range 2)
          (\<lambda>j (angle1, angle2, s).
             if j < length ks
             then
               and_then
                 (for_each (py_range 3)
                    (\<lambda>i (k, s).
                       let ik = (if clamp \<and> i + k > 11 then (0, 0) else (i, k))
                       in and_then (perimeter_circle (fst ik) (snd ik) angle1 angle2 color s)
                            (\<lambda>s1. Inr (snd ik, s1)))
                    (ks ! j, s))
                 (\<lambda>(k, s1). Inr (angle1 + DEGREE_60, angle2 + DEGREE_60, s1))
             else Inl IndexError)
          (a1, a2, s))
       (\<lambda>(angle1, angle2, s1). Inr s1)"

definition draw_6th_ring :: "color \<Rightarrow> flower \<Rightarrow> error + flower" where
  "draw_6th_ring color s =
     and_then
       (for_each (py_range 6)
          (\<lambda>i (angle, s).
             and_then (get_slot (ring_center s) i)
               (\<lambda>ab. and_then (set_slot (extra_ring s) (i * 2 + 1) ab)
                  (\<lambda>er1. and_then
                     (set_slot er1 (i * 2)
                        (get_point_on_circle ab angle (of_int (circle_radius s))))
                     (\<lambda>er2. Inr (angle + DEGREE_60, s\<lparr>extra_ring := er2\<rparr>)))))
          (- DEGREE_60, s))
       (\<lambda>(angle, s1).
          and_then (perimeter_pass False [0, 2] 0 DEGREE_60 color s1)
            (\<lambda>s2. and_then (perimeter_pass False [4, 6] DEGREE_120 DEGREE_180 color s2)
               (\<lambda>s3. perimeter_pass True [8, 10] DEGREE_240 DEGREE_300 color s3)))"

subsection \<open>Drawing the flower\<close>

definition rings :: "(color \<Rightarrow> flower \<Rightarrow> error + flower) list" where
  "rings = [draw_1st_ring, draw_2nd_ring, draw_3rd_ring, draw_4th_ring, draw_5th_ring,
            draw_6th_ring]"

definition draw_black_and_white :: "flower \<Rightarrow> error + flower" where
  "draw_black_and_white s =
     and_then
       (for_each (py_range (length rings))
          (\<lambda>x s. and_then ((rings ! x) WHITE s)
                    (\<lambda>s1. Inr (emit [gimp_image_merge_visible_layers] s1)))
          (draw_center_circle WHITE s))
       (\<lambda>s1. Inr (draw_frame WHITE s1))"

definition draw_colored_flower :: "flower \<Rightarrow> error + flower" where
  "draw_colored_flower s =
     and_then (get_color (ring_colors s) 0)
       (\<lambda>c0. and_then
          (for_each (py_range (length rings))
             (\<lambda>x s. and_then (get_color (ring_colors s) (x + 1))
                       (\<lambda>c. and_then ((rings ! x) c s)
                          (\<lambda>s1. Inr (emit [gimp_image_merge_visible_layers] s1))))
             (draw_center_circle c0 s))
          (\<lambda>s1. let s2 = draw_frame (frame_color s1) s1
                in Inr (emit [gimp_image_get_layer_by_name BASE, layer_set_name COLOR_LAYER] s2)))"

definition draw_gradient :: "flower \<Rightarrow> flower" where
  "draw_gradient s =
     (let s1 = make_new_layer GRADIENT False False s;
          center = of_int (image_center s1)
      in emit [gimp_gradient_new ''flower'',
               gimp_gradient_segment_set_right_color BLACK,
               gimp_gradient_segment_set_left_color WHITE,
               gimp_context_set_gradient ''flower'',
               gimp_drawable_edit_gradient_fill center center
                 (of_int (flower_radius s1 * 2)) (of_int (flower_radius s1 * 2)),
               gimp_gradient_delete ''flower''] s1)"

definition create_bw_alpha :: "flower \<Rightarrow> error + flower" where
  "create_bw_alpha s =
     (let s1 = (if flower_type s = PETALS
                then emit [gimp_image_get_layer_by_name BASE, plug_in_colortoalpha BLACK] s
                else s);
          lines = (flower_type s1 = LINES);
          s2 = make_new_layer MASK True False s1;
          s3 = fill_layer BLACK s2;
          dim1 = (if lines then circle_diameter s3 + line_width s3 else circle_diameter s3);
          line_w = line_width s3 div 2
      in and_then
           (for_each (py_range 12)
              (\<lambda>i s. and_then (get_slot (extra_ring s) i)
                        (\<lambda>xy. let x = fst xy - of_int (circle_radius s);
                                  y = snd xy - of_int (circle_radius s);
                                  x1 = (if lines then x - of_int line_w else x);
                                  y1 = (if lines then y - of_int line_w else y)
                              in Inr (emit [gimp_image_select_ellipse CHANNEL_OP_ADD x1 y1
                                              (of_int dim1) (of_int dim1)] s)))
              s3)
           (\<lambda>s4. let x = of_int (image_center s4 - circle_diameter s4);
                     dim = of_int (circle_diameter s4 * 2);
                     s5 = emit [gimp_image_select_ellipse CHANNEL_OP_ADD x x dim dim] s4;
                     s6 = draw_circle_selection x x s5;
                     s7 = fill_circle WHITE s6;
                     s8 = emit [gimp_selection_none] s7;
                     s9 = draw_frame WHITE s8
                 in Inr (emit [gimp_image_get_layer_by_name MASK,
                               gimp_image_get_layer_by_name BASE,
                               gimp_image_select_color CHANNEL_OP_ADD WHITE,
                               gimp_layer_create_mask ADD_MASK_SELECTION,
                               gimp_layer_add_mask,
                               gimp_selection_none,
                               gimp_image_remove_layer] s9)))"

definition info_msg :: "color list \<Rightarrow> flower \<Rightarrow> flower" where
  "info_msg msg s =
     emit [gimp_message_get_handler, gimp_message_set_handler, gimp_message msg,
           gimp_message_set_handler] s"

subsection \<open>Random colours\<close>

text \<open>
  \<open>random.randint(a, b)\<close> is a call to a source of random numbers outside the script: the
  source \<open>rnd\<close> gives the value of the \<open>n\<close>-th call from its bounds. What the library
  promises of it is \<open>a \<le> rnd n a b \<le> b\<close>.
\<close>

type_synonym random_source = "nat \<Rightarrow> int \<Rightarrow> int \<Rightarrow> int"

definition randint_contract :: "random_source \<Rightarrow> bool" where
  "randint_contract rnd = (\<forall>n a b. a \<le> b \<longrightarrow> a \<le> rnd n a b \<and> rnd n a b \<le> b)"

definition randint :: "random_source \<Rightarrow> int \<Rightarrow> int \<Rightarrow> flower \<Rightarrow> int \<times> flower" where
  "randint rnd a b s = (rnd (rng_calls s) a b, s\<lparr>rng_calls := Suc (rng_calls s)\<rparr>)"

text \<open>The two nested loops that overwrite every component of every ring colour.\<close>

definition random_ring_colors :: "random_source \<Rightarrow> flower \<Rightarrow> error + flower" where
  "random_ring_colors rnd s =
     for_each (py_range RING_COLORS_COUNT)
       (\<lambda>i s. for_each (py_range 3)
                 (\<lambda>j s. let vs = randint rnd 0 255 s; s1 = snd vs
                        in and_then (get_color (ring_colors s1) i)
                             (\<lambda>c. and_then (set_component c j (fst vs))
                                (\<lambda>c1. Inr (s1\<lparr>ring_colors := (ring_colors s1)[i := c1]\<rparr>))))
                 s)
       s"

text \<open>The frame colour of Random Colors mode: the sums of the components, each divided by 7.\<close>

definition average_frame_color :: "flower \<Rightarrow> error + flower" where
  "average_frame_color s =
     and_then
       (for_each (py_range RING_COLORS_COUNT)
          (\<lambda>i (r, g, b). and_then (get_color (ring_colors s) i)
                            (\<lambda>c. Inr (r + fst c, g + fst (snd c), b + snd (snd c))))
          (0, 0, 0))
       (\<lambda>(r, g, b).
          Inr (s\<lparr>frame_color := (r div int RING_COLORS_COUNT, g div int RING_COLORS_COUNT,
                                   b div int RING_COLORS_COUNT)\<rparr>))"

subsection \<open>The entry point\<close>

text \<open>\<open>scale_size\<close>, a local variable of \<open>render_flower\<close>.\<close>

definition scale_size :: "real \<Rightarrow> int \<Rightarrow> real \<Rightarrow> real \<Rightarrow> int" where
  "scale_size symbol_radius flower_part line_w frame_w =
     (let size0 = py_int (symbol_radius * 2 + frame_w * 2) + 2
      in if flower_part = LINES then size0 + py_int (line_w * of_int SCALE) else size0)"

text \<open>
  The globals as \<open>render_flower\<close> initialises them, before its first host call. The two
  recycled lists are as the module created them.
\<close>

definition init_globals ::
    "real \<Rightarrow> int \<Rightarrow> int \<Rightarrow> color list \<Rightarrow> real \<Rightarrow> real \<Rightarrow> color \<Rightarrow> flower" where
  "init_globals symbol_radius mode flower_part colors line_w frame_w frame_col =
     (let isize = scale_size symbol_radius flower_part line_w frame_w * SCALE;
          icenter = isize div 2;
          cradius = py_int (symbol_radius / 3 * of_int SCALE)
      in \<lparr> image_size = isize,
           image_center = icenter,
           image_focus = (of_int icenter, of_int icenter),
           circle_diameter = cradius * 2,
           circle_radius = cradius,
           frame_width = py_int (frame_w * of_int SCALE),
           flower_radius = py_int (symbol_radius * of_int SCALE),
           flower_type = flower_part,
           line_width = py_int (line_w * of_int SCALE),
           ring_colors = colors,
           frame_color = frame_col,
           color_mode = mode,
           ring_center = replicate 6 None,
           extra_ring = replicate 12 None,
           extra_ring_reads = [],
           rng_calls = 0,
           trace = [] \<rparr>)"

definition render_flower ::
    "real \<Rightarrow> int \<Rightarrow> int \<Rightarrow> color \<Rightarrow> color \<Rightarrow> color \<Rightarrow> color \<Rightarrow> color \<Rightarrow> color \<Rightarrow> color
      \<Rightarrow> real \<Rightarrow> real \<Rightarrow> color \<Rightarrow> random_source \<Rightarrow> error + flower" where
  "render_flower symbol_radius mode flower_part color1 color2 color3 color4 color5 color6 color7
       line_w frame_w frame_col rnd =
     (let s0 = init_globals symbol_radius mode flower_part
                 [color1, color2, color3, color4, color5, color6, color7] line_w frame_w frame_col;
          size = scale_size symbol_radius flower_part line_w frame_w;
          s1 = emit [gimp_context_push,
                     gimp_context_set_antialias False,
                     gimp_context_set_feather False,
                     gimp_Image (image_size s0) (image_size s0),
                     gimp_image_undo_group_start,
                     gimp_display_new] s0
      in and_then
           (if mode \<noteq> 0
            then
              (let s2 = make_new_layer BASE True False s1;
                   s3 = (if flower_type s2 \<noteq> LINES then fill_layer WHITE s2 else s2)
               in and_then
                    (if mode = RANDOM_COLORS
                     then and_then (random_ring_colors rnd s3) average_frame_color
                     else Inr s3)
                    (\<lambda>s4. and_then (draw_colored_flower s4)
                       (\<lambda>s5. let s6 = draw_gradient s5
                             in Inr (emit [gimp_image_get_layer_by_name GRADIENT,
                                           gimp_item_set_visible False,
                                           gimp_layer_copy,
                                           image_add_layer 0,
                                           gimp_image_get_layer_by_name COLOR_LAYER,
                                           gimp_item_set_visible False] s6))))
            else Inr s1)
           (\<lambda>s7.
              let s8 = make_new_layer BASE True (mode > 0) s7;
                  s9 = (if flower_type s8 \<noteq> LINES then fill_layer WHITE s8 else s8)
              in and_then (draw_black_and_white s9)
                   (\<lambda>s10. and_then (create_bw_alpha s10)
                      (\<lambda>s11.
                         let s12 = emit [gimp_image_merge_visible_layers] s11;
                             s13 =
                               (if mode \<noteq> 0
                                then
                                  info_msg (ring_colors s12)
                                    (emit [gimp_image_get_layer_by_name BASE,
                                           gimp_layer_create_mask ADD_MASK_ALPHA,
                                           gimp_image_get_layer_by_name COLOR_LAYER,
                                           gimp_layer_add_mask,
                                           gimp_image_get_layer_by_name BASE,
                                           gimp_image_remove_layer,
                                           gimp_image_get_layer_by_name GRADIENT,
                                           gimp_item_set_visible True,
                                           gimp_image_get_layer_by_name (GRADIENT @ '' copy''),
                                           gimp_item_set_visible True,
                                           gimp_image_get_layer_by_name COLOR_LAYER,
                                           gimp_item_set_visible True,
                                           gimp_image_merge_visible_layers] s12)
                                else
                                  emit [gimp_image_get_layer_by_name BASE,
                                        gimp_drawable_invert] s12)
                         in Inr (emit [gimp_image_scale_full size size,
                                       gimp_image_undo_group_end,
                                       gimp_context_pop] s13)))))"

section \<open>Floating-point arithmetic\<close>

text \<open>
  A double is modelled as the real number it stands for, and an operation on doubles as the
  exact operation followed by \<open>double\<close>, the rounding to the nearest double (ties to the even
  mantissa), as IEEE 754 prescribes for \<open>+\<close>, \<open>-\<close>, \<open>*\<close> and \<open>/\<close>.
\<close>

text \<open>The nearest integer, a tie going to the even one.\<close>

definition round_half_even :: "real \<Rightarrow> int" where
  "round_half_even y =
     (let f = \<lfloor>y\<rfloor>; d = y - of_int f
      in if d < 1 / 2 then f else if 1 / 2 < d then f + 1 else if even f then f else f + 1)"

text \<open>
  The mantissa and the weight of a positive number: \<open>x = m * u\<close> with \<open>u\<close> a power of two and
  \<open>1 \<le> m < 2\<close>. The exponent of a double lies between -1022 and 1023, which bounds the
  number of steps; below the least exponent the mantissa is less than 1 (a subnormal).
\<close>

fun scale_down :: "nat \<Rightarrow> real \<Rightarrow> real \<Rightarrow> real \<times> real" where
  "scale_down n x u = (if n = 0 \<or> x < 2 then (x, u) else scale_down (n - 1) (x / 2) (u * 2))"

fun scale_up :: "nat \<Rightarrow> real \<Rightarrow> real \<Rightarrow> real \<times> real" where
  "scale_up n x u = (if n = 0 \<or> 1 \<le> x then (x, u) else scale_up (n - 1) (x * 2) (u / 2))"

declare scale_down.simps [simp del] scale_up.simps [simp del]

text \<open>
  The double nearest to a real number: the mantissa rounded to 52 binary places. Numbers
  beyond the largest double, which a run of the scripts does not reach, have no infinity here.
\<close>

definition double :: "real \<Rightarrow> real" where
  "double x =
     (let a = \<bar>x\<bar>;
          mu = (if 1 \<le> a then scale_down 1023 a 1 else scale_up 1022 a 1)
      in sgn x * of_int (round_half_even (fst mu * 2 ^ 52)) * snd mu / 2 ^ 52)"

section \<open>The standard library's colorsys\<close>

text \<open>
  \<open>rgb_to_hls\<close>, \<open>hls_to_rgb\<close> and \<open>_v\<close> of Python's \<open>colorsys\<close> module, which the
  yin-yang script calls, every operation with its rounding. The constants are
  \<open>ONE_THIRD = 1.0/3.0\<close>, \<open>ONE_SIXTH = 1.0/6.0\<close> and \<open>TWO_THIRD = 2.0/3.0\<close>. A division by
  zero raises \<open>ZeroDivisionError\<close>.
\<close>

definition ONE_THIRD :: real where "ONE_THIRD = double (1 / 3)"
definition ONE_SIXTH :: real where "ONE_SIXTH = double (1 / 6)"
definition TWO_THIRD :: real where "TWO_THIRD = double (2 / 3)"

text \<open>
  \<open>x % 1.0\<close>: the remainder of the C function \<open>fmod\<close>, which is exact and has the sign of
  \<open>x\<close>, plus 1.0 (an addition, so rounded) when it is negative.
\<close>

definition mod_1 :: "real \<Rightarrow> real" where
  "mod_1 x =
     (let m = x - of_int (if 0 \<le> x then \<lfloor>x\<rfloor> else \<lceil>x\<rceil>)
      in if m < 0 then double (m + 1) else m)"

definition rgb_to_hls :: "real \<Rightarrow> real \<Rightarrow> real \<Rightarrow> error + (real \<times> real \<times> real)" where
  "rgb_to_hls r g b =
     (let maxc = max (max r g) b;
          minc = min (min r g) b;
          sumc = double (maxc + minc);
          rangec = double (maxc - minc);
          l = double (sumc / 2)
      in if minc = maxc then Inr (0, l, 0)
         else
           (let d = (if l \<le> 0.5 then sumc else double (double (2 - maxc) - minc))
            in if d = 0 \<or> rangec = 0 then Inl ZeroDivisionError
               else
                 (let s = double (rangec / d);
                      rc = double (double (maxc - r) / rangec);
                      gc = double (double (maxc - g) / rangec);
                      bc = double (double (maxc - b) / rangec);
                      h = (if r = maxc then double (bc - gc)
                           else if g = maxc then double (double (2 + rc) - bc)
                           else double (double (4 + gc) - rc))
                  in Inr (mod_1 (double (h / 6)), l, s))))"

definition hls_v :: "real \<Rightarrow> real \<Rightarrow> real \<Rightarrow> real" where
  "hls_v m1 m2 hue0 =
     (let hue = mod_1 hue0
      in if hue < ONE_SIXTH then double (m1 + double (double (double (m2 - m1) * hue) * 6))
         else if hue < 0.5 then m2
         else if hue < TWO_THIRD
         then double (m1 + double (double (double (m2 - m1) * double (TWO_THIRD - hue)) * 6))
         else m1)"

definition hls_to_rgb :: "real \<Rightarrow> real \<Rightarrow> real \<Rightarrow> real \<times> real \<times> real" where
  "hls_to_rgb h l s =
     (if s = 0 then (l, l, l)
      else
        (let m2 = (if l \<le> 0.5 then double (l * double (1 + s))
                   else double (double (l + s) - double (l * s)));
             m1 = double (double (2 * l) - m2)
         in (hls_v m1 m2 (double (h + ONE_THIRD)), hls_v m1 m2 h,
             hls_v m1 m2 (double (h - ONE_THIRD)))))"

section \<open>Decimal strings\<close>

text \<open>\<open>str(n)\<close> for an integer.\<close>

function str_nat :: "nat \<Rightarrow> string" where
  "str_nat n =
     (if n < 10 then [char_of (48 + n)]
      else str_nat (n div 10) @ [char_of (48 + n mod 10)])"
  by pat_completeness auto
termination
  by (relation "measure id") auto

definition str :: "int \<Rightarrow> string" where
  "str i = (if i < 0 then CHR ''-'' # str_nat (nat (- i)) else str_nat (nat i))"

section \<open>yin-yang-1-05.py\<close>

subsection \<open>Constants\<close>

definition FRAME_WIDTH_INT :: int where "FRAME_WIDTH_INT = 2"
definition FRAME_WIDTH :: real where "FRAME_WIDTH = of_int FRAME_WIDTH_INT"

definition YY_GRADIENT :: int where "YY_GRADIENT = 1"
definition YY_INVERTED_COLOR :: int where "YY_INVERTED_COLOR = 2"
definition YY_POLAR_HUE :: int where "YY_POLAR_HUE = 3"
definition YY_POLAR_LIGHTNESS :: int where "YY_POLAR_LIGHTNESS = 4"
definition YY_POLAR_SATURATION :: int where "YY_POLAR_SATURATION = 5"
definition YY_PATTERN :: int where "YY_PATTERN = 6"

definition YY_SCALE :: int where "YY_SCALE = 4"

text \<open>The labels of the \<open>mode\<close> option of the dialog, in the order of their indices.\<close>

definition mode_options :: "string list" where
  "mode_options =
     [''Flow Color 1 and Flow Color 2 / Solid'',
      ''Flow Color 1 and Flow Color 2 / Gradient'',
      ''Flow Color 1 and Polar Color'',
      ''Flow Color 1 and Polar Hue'',
      ''Flow Color 1 and Polar Lightness'',
      ''Flow Color 1 and Polar Saturation'',
      ''Flow Pattern 1 and Flow Pattern 2'']"

subsection \<open>The class \<open>yy\<close>\<close>

record yy =
  yy_rim_width :: int
  yy_symbol_size :: int
  yy_symbol_dimension :: int
  yy_mode :: int
  yy_image_size :: int
  yy_center :: int
  yy_flow_size :: int
  yy_head_diameter :: real
  yy_head_radius :: real
  yy_eye_radius :: real
  yy_eye_diameter :: real
  yy_flow_offset :: real

subsection \<open>The colour of the second flow\<close>

text \<open>
  The three HLS derivations: \<open>flow_color_1[i] / 255.0\<close> to HLS, one channel \<open>x\<close> replaced
  by \<open>1 - x\<close>, back to RGB, \<open>int(rgb[i] * 255)\<close>; every operation is one on doubles.
  \<open>channel\<close> is 0 for the hue, 1 for the lightness and 2 for the saturation.
\<close>

definition invert_hls_channel :: "nat \<Rightarrow> color \<Rightarrow> error + color" where
  "invert_hls_channel channel flow_color_1 =
     (case flow_color_1 of (c0, c1, c2) \<Rightarrow>
        and_then
          (rgb_to_hls (double (of_int c0 / 255)) (double (of_int c1 / 255))
             (double (of_int c2 / 255)))
          (\<lambda>(h, l, s).
             let hls = (if channel = 0 then (double (1 - h), l, s)
                        else if channel = 1 then (h, double (1 - l), s)
                        else (h, l, double (1 - s)));
                 rgb = (case hls of (h1, l1, s1) \<Rightarrow> hls_to_rgb h1 l1 s1)
             in (case rgb of (r, g, b) \<Rightarrow>
                   Inr (py_int (double (r * 255)), py_int (double (g * 255)),
                        py_int (double (b * 255))))))"

text \<open>The block under \<open># Set colors:\<close> of \<open>render_yin_yang\<close>: the new \<open>flow_color_2\<close>.\<close>

definition set_colors :: "int \<Rightarrow> color \<Rightarrow> color \<Rightarrow> error + color" where
  "set_colors mode flow_color_1 flow_color_2 =
     (if mode = YY_INVERTED_COLOR
      then (case flow_color_1 of (c0, c1, c2) \<Rightarrow> Inr (255 - c0, 255 - c1, 255 - c2))
      else if mode \<in> {YY_POLAR_HUE, YY_POLAR_LIGHTNESS, YY_POLAR_SATURATION}
      then
        (if mode = YY_POLAR_HUE then invert_hls_channel 0 flow_color_1
         else if mode = YY_POLAR_LIGHTNESS then invert_hls_channel 1 flow_color_1
         else invert_hls_channel 2 flow_color_1)
      else Inr flow_color_2)"

subsection \<open>Drawing\<close>

definition draw_flow_selection :: "yy \<Rightarrow> channel_op \<Rightarrow> cmd list" where
  "draw_flow_selection y operation =
     (let a = FRAME_WIDTH + of_int (yy_rim_width y)
      in [gimp_image_select_ellipse operation a a
            (of_int (yy_flow_size y)) (of_int (yy_flow_size y))])"

definition fill :: "color \<Rightarrow> fill_material \<Rightarrow> cmd list" where
  "fill color material = [gimp_context_set_foreground color, gimp_edit_bucket_fill material]"

definition new_gradient :: "color \<Rightarrow> color \<Rightarrow> int \<Rightarrow> string \<times> cmd list" where
  "new_gradient left_color right_color i =
     (let gradient = ''yin-yang'' @ str i
      in (gradient,
          [gimp_gradient_new gradient,
           gimp_gradient_segment_set_right_color right_color,
           gimp_gradient_segment_set_left_color left_color,
           gimp_gradient_segment_range_set_blending_function,
           gimp_gradient_segment_range_set_coloring_type]))"

text \<open>\<open>(a, b)[i]\<close>\<close>

definition pair_index :: "'a \<Rightarrow> 'a \<Rightarrow> nat \<Rightarrow> error + 'a" where
  "pair_index a b i = (if i = 0 then Inr a else if i = 1 then Inr b else Inl IndexError)"

definition draw_side :: "yy \<Rightarrow> color \<Rightarrow> string option \<Rightarrow> string \<Rightarrow> nat \<Rightarrow> error + cmd list" where
  "draw_side y flow_color gradient pattern i =
     (if 2 \<le> i then Inl IndexError
      else
        (let pick = (\<lambda>a b. if i = 0 then a else b);
             center = of_int (yy_center y);
             eye_offset = yy_head_diameter y / 2;
             eye_x = center - yy_eye_radius y;
             eye_y1 = pick (center + eye_offset - yy_eye_radius y)
                           (center - eye_offset - yy_eye_radius y);
             eye_y2 = pick (center - eye_offset - yy_eye_radius y)
                           (center + eye_offset - yy_eye_radius y)
         in Inr
              (draw_flow_selection y CHANNEL_OP_REPLACE @
               [gimp_image_select_rectangle CHANNEL_OP_SUBTRACT
                  (pick 0 center) 0 center (of_int (yy_image_size y)),
                gimp_image_select_ellipse CHANNEL_OP_ADD
                  (center - yy_head_radius y) (pick center (yy_flow_offset y))
                  (yy_head_diameter y) (yy_head_diameter y),
                gimp_image_select_ellipse CHANNEL_OP_SUBTRACT
                  (center - yy_head_radius y) (pick (yy_flow_offset y) center)
                  (yy_head_diameter y) (yy_head_diameter y),
                gimp_image_select_ellipse CHANNEL_OP_SUBTRACT
                  eye_x eye_y1 (yy_eye_diameter y) (yy_eye_diameter y),
                gimp_image_select_ellipse CHANNEL_OP_ADD
                  eye_x eye_y2 (yy_eye_diameter y) (yy_eye_diameter y)] @
               (if yy_mode y = YY_GRADIENT
                then
                  [gimp_context_set_gradient (case gradient of None \<Rightarrow> [] | Some g \<Rightarrow> g),
                   gimp_drawable_edit_gradient_fill
                     (pick (center - yy_head_radius y) (center + yy_head_radius y))
                     (pick (center + yy_head_radius y) (center - yy_head_radius y))
                     (pick (of_int (yy_image_size y) - FRAME_WIDTH) FRAME_WIDTH)
                     (pick FRAME_WIDTH (of_int (yy_image_size y) - FRAME_WIDTH))]
                else if yy_mode y = YY_PATTERN
                then gimp_context_set_pattern pattern # fill flow_color BUCKET_FILL_PATTERN
                else fill flow_color BUCKET_FILL_FG))))"

subsection \<open>The animation frames\<close>

text \<open>\<open>math.radians\<close>\<close>

definition radians :: "real \<Rightarrow> real" where
  "radians x = x * pi / 180"

text \<open>The conditional under \<open># Keep angle in GIMP rotation bounds:\<close>.\<close>

definition keep_in_bounds :: "real \<Rightarrow> real" where
  "keep_in_bounds angle =
     (if angle > 180 then - 360 + angle
      else if angle < - 180 then 360 + angle
      else angle)"

text \<open>
  The loop \<open>for frame in range(f - 1)\<close>: \<open>n\<close> is the number of iterations left, \<open>angle\<close>
  the loop's variable, \<open>new_size\<close> the value of \<open>yy.image_size\<close> after the image has been
  scaled back.
\<close>

fun frames :: "nat \<Rightarrow> real \<Rightarrow> real \<Rightarrow> string \<Rightarrow> int \<Rightarrow> int \<Rightarrow> cmd list" where
  "frames 0 angle rotation timer center new_size = []"
| "frames (Suc n) angle rotation timer center new_size =
     (let angle1 = keep_in_bounds angle
      in [gimp_layer_copy,
          image_add_layer 0,
          layer_set_name (str (py_int angle1) @ timer),
          gimp_item_transform_rotate (radians angle1) (of_int center) (of_int center),
          gimp_displays_flush,
          gimp_image_crop new_size new_size]
         @ frames n (angle1 + rotation) rotation timer center new_size)"

text \<open>The block under \<open># Process frame count:\<close>.\<close>

definition process_frame_count :: "real \<Rightarrow> nat \<Rightarrow> string \<Rightarrow> int \<Rightarrow> int \<Rightarrow> error + cmd list" where
  "process_frame_count frame_count direction timer center new_size =
     (if frame_count > 1
      then
        and_then (pair_index 1 (- 1) direction)
          (\<lambda>sign. let rotation = 360 / frame_count * sign;
                      f = py_int frame_count
                  in Inr (frames (nat (f - 1)) rotation rotation timer center new_size))
      else Inr [])"

subsection \<open>The entry point\<close>

definition yy_init :: "real \<Rightarrow> int \<Rightarrow> real \<Rightarrow> real \<Rightarrow> error + yy" where
  "yy_init symbol_diameter mode rim_width eye_divisor =
     (let rw = py_int (rim_width * of_int YY_SCALE);
          symbol_size = py_int (symbol_diameter * of_int YY_SCALE);
          size = symbol_size + 2 * FRAME_WIDTH_INT;
          flow_size = symbol_size - rw * 2;
          head_diameter = of_int flow_size / 2
      in if eye_divisor = 0 then Inl ZeroDivisionError
         else Inr \<lparr> yy_rim_width = rw,
                    yy_symbol_size = symbol_size,
                    yy_symbol_dimension = symbol_size,
                    yy_mode = mode,
                    yy_image_size = size,
                    yy_center = size div 2,
                    yy_flow_size = flow_size,
                    yy_head_diameter = head_diameter,
                    yy_head_radius = head_diameter / 2,
                    yy_eye_radius = of_int flow_size / eye_divisor,
                    yy_eye_diameter = of_int flow_size / eye_divisor * 2,
                    yy_flow_offset = FRAME_WIDTH + rim_width \<rparr>)"

text \<open>The block under \<open># Draw rim:\<close>, with its guard.\<close>

definition draw_rim :: "yy \<Rightarrow> color \<Rightarrow> cmd list" where
  "draw_rim y rim_color =
     (if yy_rim_width y \<noteq> 0
      then
        [gimp_image_select_ellipse CHANNEL_OP_REPLACE FRAME_WIDTH FRAME_WIDTH
           (of_int (yy_symbol_dimension y)) (of_int (yy_symbol_dimension y))]
        @ draw_flow_selection y CHANNEL_OP_SUBTRACT
        @ fill rim_color BUCKET_FILL_FG
      else [])"

definition render_yin_yang ::
    "real \<Rightarrow> int \<Rightarrow> color \<Rightarrow> color \<Rightarrow> color \<Rightarrow> string \<Rightarrow> string \<Rightarrow> real \<Rightarrow> real \<Rightarrow> nat
      \<Rightarrow> real \<Rightarrow> real \<Rightarrow> error + cmd list" where
  "render_yin_yang symbol_diameter mode flow_color_1 flow_color_2 rim_color
       flow_pattern_1 flow_pattern_2 rim_width eye_divisor direction frame_count frame_timer =
     and_then (yy_init symbol_diameter mode rim_width eye_divisor)
       (\<lambda>y. let timer = (if frame_count > 1
                          then '' ('' @ str (py_int frame_timer) @ ''ms)'' else '''')
             in and_then (set_colors mode flow_color_1 flow_color_2)
                  (\<lambda>flow_color_2.
                     let g1 = new_gradient flow_color_1 flow_color_2 1;
                         g2 = new_gradient flow_color_2 flow_color_1 2;
                         gradient_1 = (if yy_mode y = 1 then Some (fst g1) else None);
                         gradient_2 = (if yy_mode y = 1 then Some (fst g2) else None);
                         new_size = yy_image_size y div YY_SCALE
                     in and_then (draw_side y flow_color_1 gradient_1 flow_pattern_1 0)
                          (\<lambda>side_1. and_then
                             (draw_side y flow_color_2 gradient_2 flow_pattern_2 1)
                             (\<lambda>side_2. and_then
                                (process_frame_count frame_count direction timer
                                   (yy_center y) new_size)
                                (\<lambda>animation.
                                   Inr ([gimp_context_push,
                                         gimp_context_set_antialias False,
                                         gimp_context_set_feather False,
                                         gimp_Image (yy_image_size y) (yy_image_size y),
                                         gimp_layer_new (yy_image_size y) (yy_image_size y)
                                           (''Base'' @ timer) LAYER_MODE_NORMAL,
                                         image_add_layer 0,
                                         gimp_display_new,
                                         gimp_image_undo_group_start]
                                        @ (if yy_mode y = 1 then snd g1 @ snd g2 else [])
                                        @ side_1 @ side_2
                                        @ draw_rim y rim_color
                                        @ [gimp_selection_none]
                                        @ (if direction \<noteq> 0
                                           then [gimp_item_transform_flip_simple] else [])
                                        @ [gimp_image_scale_full new_size new_size]
                                        @ animation
                                        @ (case gradient_1 of None \<Rightarrow> []
                                           | Some g \<Rightarrow> [gimp_gradient_delete g])
                                        @ (case gradient_2 of None \<Rightarrow> []
                                           | Some g \<Rightarrow> [gimp_gradient_delete g])
                                        @ [gimp_image_undo_group_end,
                                           gimp_context_pop]))))))"

section \<open>yin-yang-1-02.py\<close>

text \<open>
  The earlier version of the script has six modes; only the parts that differ from version
  1.05 and matter below are modelled: the dialog's labels, the colour block and the loop
  over the frames.
\<close>

definition mode_options_1_02 :: "string list" where
  "mode_options_1_02 =
     [''Flow Color 1 and Flow Color 2 / Solid'',
      ''Flow Color 1 and Flow Color 2 / Gradient'',
      ''Flow Color 1 and Polar Hue'',
      ''Flow Color 1 and Polar Lightness'',
      ''Flow Color 1 and Polar Saturation'',
      ''Flow Pattern 1 and Flow Pattern 2'']"

definition set_colors_1_02 :: "int \<Rightarrow> color \<Rightarrow> color \<Rightarrow> error + color" where
  "set_colors_1_02 mode flow_color_1 flow_color_2 =
     (if mode = 3
      then (case flow_color_1 of (c0, c1, c2) \<Rightarrow> Inr (255 - c0, 255 - c1, 255 - c2))
      else if mode \<in> {2, 4}
      then
        (if mode = 2 then invert_hls_channel 0 flow_color_1
         else invert_hls_channel 2 flow_color_1)
      else Inr flow_color_2)"

fun frames_1_02 :: "nat \<Rightarrow> real \<Rightarrow> real \<Rightarrow> string \<Rightarrow> int \<Rightarrow> cmd list" where
  "frames_1_02 0 angle rotation timer center = []"
| "frames_1_02 (Suc n) angle rotation timer center =
     (let angle1 = keep_in_bounds angle
      in [gimp_layer_copy,
          image_add_layer 0,
          layer_set_name (str (py_int angle1) @ timer),
          gimp_item_transform_rotate (radians angle1) (of_int center) (of_int center),
          layer_merge_shadow,
          layer_flush]
         @ frames_1_02 n (angle1 + rotation) rotation timer center)"

definition process_frame_count_1_02 :: "real \<Rightarrow> nat \<Rightarrow> string \<Rightarrow> int \<Rightarrow> error + cmd list" where
  "process_frame_count_1_02 frame_count direction timer center =
     (if frame_count > 1
      then
        and_then (pair_index 1 (- 1) direction)
          (\<lambda>sign. let rotation = 360 / frame_count * sign;
                      f = py_int frame_count
                  in Inr (frames_1_02 (nat (f - 1)) rotation rotation timer center))
      else Inr [])"

section \<open>Notions used in the statements\<close>

text \<open>Agreement with a decimal given to two places.\<close>

definition agrees_2dp :: "real \<Rightarrow> real \<Rightarrow> bool" where
  "agrees_2dp x d = (\<bar>x - d\<bar> < 0.005)"

text \<open>\<open>math.degrees\<close>, the inverse of \<open>radians\<close>.\<close>

definition degrees :: "real \<Rightarrow> real" where
  "degrees x = x * 180 / pi"

text \<open>The colours of the \<open>gimp_context_set_foreground\<close> calls of a sequence, in order.\<close>

fun foregrounds :: "cmd list \<Rightarrow> color list" where
  "foregrounds [] = []"
| "foregrounds (gimp_context_set_foreground c # cs) = c # foregrounds cs"
| "foregrounds (_ # cs) = foregrounds cs"

text \<open>A sequence of calls that neither opens nor closes an undo group.\<close>

definition plain :: "cmd list \<Rightarrow> bool" where
  "plain cs = (gimp_image_undo_group_start \<notin> set cs \<and> gimp_image_undo_group_end \<notin> set cs)"

text \<open>The calls a step has added to the trace.\<close>

definition new_calls :: "flower \<Rightarrow> flower \<Rightarrow> cmd list" where
  "new_calls s s' = drop (length (trace s)) (trace s')"

text \<open>
  A step that leaves every global but the two recycled lists and the record of reads as it
  was, and only extends the trace.
\<close>

definition same_globals :: "flower \<Rightarrow> flower \<Rightarrow> bool" where
  "same_globals s s' =
     (image_size s' = image_size s \<and> image_center s' = image_center s
      \<and> image_focus s' = image_focus s \<and> circle_diameter s' = circle_diameter s
      \<and> circle_radius s' = circle_radius s \<and> frame_width s' = frame_width s
      \<and> flower_radius s' = flower_radius s \<and> flower_type s' = flower_type s
      \<and> line_width s' = line_width s \<and> ring_colors s' = ring_colors s
      \<and> frame_color s' = frame_color s \<and> color_mode s' = color_mode s
      \<and> rng_calls s' = rng_calls s
      \<and> take (length (trace s)) (trace s') = trace s)"

text \<open>The host calls of one flower circle, and of the frame.\<close>

definition circle_calls :: "flower \<Rightarrow> real \<Rightarrow> real \<Rightarrow> color \<Rightarrow> cmd list" where
  "circle_calls s x y color =
     (if flower_type s = LINES
      then [gimp_layer_new (image_size s) (image_size s) ''Circle'' LAYER_MODE_NORMAL,
            image_add_layer 0,
            gimp_image_select_ellipse CHANNEL_OP_ADD
              (x - of_int (circle_radius s) - of_int (line_width s div 2))
              (y - of_int (circle_radius s) - of_int (line_width s div 2))
              (of_int (circle_diameter s + line_width s))
              (of_int (circle_diameter s + line_width s)),
            gimp_image_select_ellipse CHANNEL_OP_SUBTRACT
              (x - of_int (circle_radius s) - of_int (line_width s div 2) + of_int (line_width s))
              (y - of_int (circle_radius s) - of_int (line_width s div 2) + of_int (line_width s))
              (of_int (circle_diameter s - line_width s))
              (of_int (circle_diameter s - line_width s)),
            gimp_context_set_foreground color,
            gimp_edit_bucket_fill BUCKET_FILL_FG,
            gimp_selection_none]
      else [gimp_layer_new (image_size s) (image_size s) ''Circle'' LAYER_MODE_DIFFERENCE,
            image_add_layer 0,
            gimp_image_select_ellipse CHANNEL_OP_ADD
              (x - of_int (circle_radius s)) (y - of_int (circle_radius s))
              (of_int (circle_diameter s)) (of_int (circle_diameter s)),
            gimp_context_set_foreground color,
            gimp_edit_bucket_fill BUCKET_FILL_FG,
            gimp_selection_none])"

definition frame_calls :: "flower \<Rightarrow> color \<Rightarrow> cmd list" where
  "frame_calls s color = trace (draw_frame color (s\<lparr>trace := []\<rparr>))"

text \<open>
  The conditions under which the drawing functions run to their end, and the states they
  end in.
\<close>


definition lists_ready :: "flower \<Rightarrow> bool" where
  "lists_ready s = (length (ring_center s) = 6 \<and> length (extra_ring s) = 12)"

definition extra_ready :: "flower \<Rightarrow> bool" where
  "extra_ready s = (length (extra_ring s) = 12 \<and> list_all (\<lambda>x. x \<noteq> None) (extra_ring s))"

definition colored_state :: "flower \<Rightarrow> flower" where
  "colored_state s = projr (draw_colored_flower s)"

definition bw_state :: "flower \<Rightarrow> flower" where
  "bw_state s = projr (draw_black_and_white s)"

definition alpha_state :: "flower \<Rightarrow> flower" where
  "alpha_state s = projr (create_bw_alpha s)"

definition random_state :: "random_source \<Rightarrow> flower \<Rightarrow> flower" where
  "random_state rnd s = projr (and_then (random_ring_colors rnd s) average_frame_color)"

definition ring_fills :: "color list \<Rightarrow> color list" where
  "ring_fills cs =
     [cs ! 0] @ replicate 6 (cs ! 1) @ replicate 6 (cs ! 2) @ replicate 6 (cs ! 3)
     @ replicate 12 (cs ! 4) @ replicate 6 (cs ! 5) @ replicate 18 (cs ! 6)"

text \<open>The calls that select, fill, merge or transform.\<close>

fun is_draw :: "cmd \<Rightarrow> bool" where
  "is_draw (gimp_image_select_ellipse op x y w h) = True"
| "is_draw (gimp_image_select_rectangle op x y w h) = True"
| "is_draw (gimp_image_select_color op c) = True"
| "is_draw gimp_selection_none = True"
| "is_draw (gimp_edit_bucket_fill m) = True"
| "is_draw gimp_drawable_fill = True"
| "is_draw (gimp_drawable_edit_gradient_fill x1 y1 x2 y2) = True"
| "is_draw gimp_image_merge_visible_layers = True"
| "is_draw gimp_image_merge_down = True"
| "is_draw gimp_item_transform_flip_simple = True"
| "is_draw (gimp_item_transform_rotate a x y) = True"
| "is_draw (gimp_image_scale_full w h) = True"
| "is_draw (gimp_image_crop w h) = True"
| "is_draw _ = False"

definition single_undo_group :: "cmd list \<Rightarrow> bool" where
  "single_undo_group t =
     (count_list t gimp_image_undo_group_start = 1
      \<and> count_list t gimp_image_undo_group_end = 1
      \<and> gimp_image_undo_group_end
           \<notin> set (takeWhile (\<lambda>c. c \<noteq> gimp_image_undo_group_start) t)
      \<and> \<not> list_ex is_draw (takeWhile (\<lambda>c. c \<noteq> gimp_image_undo_group_start) t)
      \<and> \<not> list_ex is_draw (dropWhile (\<lambda>c. c \<noteq> gimp_image_undo_group_end) t))"

definition random_colors :: "random_source \<Rightarrow> nat \<Rightarrow> color list" where
  "random_colors rnd n =
     map (\<lambda>i. (rnd (n + 3 * i) 0 255, rnd (n + 3 * i + 1) 0 255, rnd (n + 3 * i + 2) 0 255))
       [0..<7]"

definition mean_color :: "color list \<Rightarrow> color" where
  "mean_color cs =
     (py_int (of_int (sum_list (map fst cs)) / 7),
      py_int (of_int (sum_list (map (\<lambda>c. fst (snd c)) cs)) / 7),
      py_int (of_int (sum_list (map (\<lambda>c. snd (snd c)) cs)) / 7))"

text \<open>A colour whose components are between 0 and 255.\<close>

definition rgb_color :: "color \<Rightarrow> bool" where
  "rgb_color c =
     (case c of (r, g, b) \<Rightarrow> 0 \<le> r \<and> r \<le> 255 \<and> 0 \<le> g \<and> g \<le> 255 \<and> 0 \<le> b \<and> b \<le> 255)"

text \<open>A colour that differs from another by at most \<open>n\<close> in each component.\<close>

definition within_tolerance :: "int \<Rightarrow> color \<Rightarrow> color \<Rightarrow> bool" where
  "within_tolerance n c d =
     (case c of (c0, c1, c2) \<Rightarrow> case d of (d0, d1, d2) \<Rightarrow>
        \<bar>d0 - c0\<bar> \<le> n \<and> \<bar>d1 - c1\<bar> \<le> n \<and> \<bar>d2 - c2\<bar> \<le> n)"

text \<open>
  What \<open>int(v * 255)\<close> can be when \<open>v * 255\<close> is the integer \<open>t\<close> up to rounding errors: \<open>t\<close>, or
  \<open>t - 1\<close> when the float falls just below \<open>t\<close>.
\<close>

definition trunc_of :: "int \<Rightarrow> int \<Rightarrow> bool" where
  "trunc_of t d = (0 \<le> d \<and> (d = t \<or> d = t - 1))"

text \<open>A bound on the error of one rounding, for numbers up to 512.\<close>

definition eta :: real where
  "eta = 1 / 2 ^ 44"

text \<open>
  The exact counterparts of the hue that \<open>rgb_to_hls\<close> computes and of the shape of \<open>_v\<close> as
  a function of the hue: a wave of period 1 that rises on the first sixth of a turn, is 1 up to
  the half, falls up to two thirds and is 0 after.
\<close>

definition sextant :: "real \<Rightarrow> real \<Rightarrow> real \<Rightarrow> real" where
  "sextant rc gc bc =
     (if rc = 0 then bc - gc else if gc = 0 then 2 + rc - bc else 4 + gc - rc) / 6"

definition wave :: "real \<Rightarrow> real" where
  "wave t = (let x = t - of_int \<lfloor>t\<rfloor> in max 0 (min 1 (min (6 * x) (6 * (2 / 3 - x)))))"

section \<open>Basic facts\<close>


lemma and_then_Inr [simp]: "and_then (Inr x) f = f x"
  by (simp add: and_then_def)

lemma and_then_Inl [simp]: "and_then (Inl e) f = Inl e"
  by (simp add: and_then_def)

lemma py_range_2: "py_range 2 = [0, 1]"
  by (simp add: py_range_def upt_rec)

lemma py_range_3: "py_range 3 = [0, 1, 2]"
  by (simp add: py_range_def upt_rec)

lemma py_range_6: "py_range 6 = [0, 1, 2, 3, 4, 5]"
  by (simp add: py_range_def upt_rec)

lemma py_range_7: "py_range 7 = [0, 1, 2, 3, 4, 5, 6]"
  by (simp add: py_range_def upt_rec)

lemma py_range_12: "py_range 12 = [0, 1, 2, 3, 4, 5, 6, 7, 8, 9, 10, 11]"
  by (simp add: py_range_def upt_rec)

lemma emit_fields [simp]:
  "image_size (emit cs s) = image_size s"
  "image_center (emit cs s) = image_center s"
  "image_focus (emit cs s) = image_focus s"
  "circle_diameter (emit cs s) = circle_diameter s"
  "circle_radius (emit cs s) = circle_radius s"
  "frame_width (emit cs s) = frame_width s"
  "flower_radius (emit cs s) = flower_radius s"
  "flower_type (emit cs s) = flower_type s"
  "line_width (emit cs s) = line_width s"
  "ring_colors (emit cs s) = ring_colors s"
  "frame_color (emit cs s) = frame_color s"
  "color_mode (emit cs s) = color_mode s"
  "ring_center (emit cs s) = ring_center s"
  "extra_ring (emit cs s) = extra_ring s"
  "extra_ring_reads (emit cs s) = extra_ring_reads s"
  "rng_calls (emit cs s) = rng_calls s"
  "trace (emit cs s) = trace s @ cs"
  by (simp_all add: emit_def)

lemma emit_emit [simp]: "emit cs (emit ds s) = emit (ds @ cs) s"
  by (simp add: emit_def)

lemma emit_update [simp]:
  "emit cs (s\<lparr>ring_center := rc\<rparr>) = (emit cs s)\<lparr>ring_center := rc\<rparr>"
  "emit cs (s\<lparr>extra_ring := er\<rparr>) = (emit cs s)\<lparr>extra_ring := er\<rparr>"
  "emit cs (s\<lparr>extra_ring_reads := rs\<rparr>) = (emit cs s)\<lparr>extra_ring_reads := rs\<rparr>"
  "emit cs (s\<lparr>ring_colors := cl\<rparr>) = (emit cs s)\<lparr>ring_colors := cl\<rparr>"
  "emit cs (s\<lparr>frame_color := fc\<rparr>) = (emit cs s)\<lparr>frame_color := fc\<rparr>"
  "emit cs (s\<lparr>rng_calls := n\<rparr>) = (emit cs s)\<lparr>rng_calls := n\<rparr>"
  by (simp_all add: emit_def)

lemma draw_flower_circle_emit:
  "draw_flower_circle x y color s = emit (circle_calls s x y color) s"
  by (simp add: draw_flower_circle_def circle_calls_def make_new_layer_def fill_circle_def
      draw_circle_selection_def Let_def)

lemma circle_calls_cong [simp]:
  "circle_calls (emit cs s) = circle_calls s"
  "circle_calls (s\<lparr>ring_center := rc\<rparr>) = circle_calls s"
  "circle_calls (s\<lparr>extra_ring := er\<rparr>) = circle_calls s"
  "circle_calls (s\<lparr>extra_ring_reads := rs\<rparr>) = circle_calls s"
  by (simp_all add: circle_calls_def fun_eq_iff)

lemma draw_1st_ring_loop_eval:
  "draw_1st_ring_loop color s =
     Inr (fst (get_point_on_circle (image_focus s) (6 * DEGREE_60) (of_int (circle_radius s))),
          snd (get_point_on_circle (image_focus s) (6 * DEGREE_60) (of_int (circle_radius s))),
          6 * DEGREE_60,
          emit (circle_calls s (of_int (image_center s)) (of_int (image_center s - circle_radius s)) color
             @ concat (map (\<lambda>k. circle_calls s
                    (fst (get_point_on_circle (image_focus s) (k * DEGREE_60) (of_int (circle_radius s))))
                    (snd (get_point_on_circle (image_focus s) (k * DEGREE_60) (of_int (circle_radius s))))
                    color) [1, 2, 3, 4, 5])) s)"
  by (simp add: draw_1st_ring_loop_def py_range_6 draw_flower_circle_emit Let_def)



lemma length_6_obtain:
  assumes "length xs = 6"
  obtains a b c d e f where "xs = [a, b, c, d, e, f]"
  using assms by (auto simp: length_Suc_conv eval_nat_numeral)

lemma length_12_obtain:
  assumes "length xs = 12"
  obtains a0 a1 a2 a3 a4 a5 a6 a7 a8 a9 a10 a11
  where "xs = [a0, a1, a2, a3, a4, a5, a6, a7, a8, a9, a10, a11]"
proof -
  from assms obtain ys zs where xs: "xs = ys @ zs" and "length ys = 6" "length zs = 6"
    by (metis add_diff_cancel_left' append_take_drop_id length_drop length_take min.absorb2
        numeral_Bit0 order_refl le_add1 mult_2 numeral_Bit0_eq_double)
  then show ?thesis
    by (elim length_6_obtain) (auto intro: that)
qed

lemma get_slot_Some [simp]:
  "i < length xs \<Longrightarrow> xs ! i = Some p \<Longrightarrow> get_slot xs i = Inr p"
  by (simp add: get_slot_def)

lemma set_slot_ok [simp]:
  "i < length xs \<Longrightarrow> set_slot xs i p = Inr (xs[i := Some p])"
  by (simp add: set_slot_def)

lemma draw_6th_ring_fill:
  assumes "ring_center s = [Some p0, Some p1, Some p2, Some p3, Some p4, Some p5]"
    and "extra_ring s = [a0, a1, a2, a3, a4, a5, a6, a7, a8, a9, a10, a11]"
  shows "\<exists>s'. draw_6th_ring color s = Inr s'
     \<and> extra_ring_reads s' = extra_ring_reads s @ [0, 1, 2, 2, 3, 4, 4, 5, 6, 6, 7, 8, 8, 9, 10, 10, 11, 0]"
  using assms
  by (simp add: draw_6th_ring_def perimeter_pass_def perimeter_circle_def py_range_6 py_range_2
      py_range_3 Let_def draw_flower_circle_emit)


lemma foregrounds_append [simp]: "foregrounds (xs @ ys) = foregrounds xs @ foregrounds ys"
  by (induction xs rule: foregrounds.induct) simp_all

lemma plain_simps [simp]:
  "plain []"
  "plain (xs @ ys) = (plain xs \<and> plain ys)"
  "plain (c # cs) = (c \<noteq> gimp_image_undo_group_start \<and> c \<noteq> gimp_image_undo_group_end \<and> plain cs)"
  by (auto simp: plain_def)

lemma circle_calls_facts [simp]:
  "foregrounds (circle_calls s x y c) = [c]"
  "plain (circle_calls s x y c)"
  by (simp_all add: circle_calls_def)

lemma get_color_ok [simp]: "i < length cs \<Longrightarrow> get_color cs i = Inr (cs ! i)"
  by (simp add: get_color_def)

lemma draw_frame_emit: "draw_frame color s = emit (frame_calls s color) s"
  by (simp add: draw_frame_def frame_calls_def make_new_layer_def fill_circle_def Let_def emit_def)

lemma frame_calls_cong [simp]:
  "frame_calls (emit cs s) = frame_calls s"
  "frame_calls (s\<lparr>ring_center := rc\<rparr>) = frame_calls s"
  "frame_calls (s\<lparr>extra_ring := er\<rparr>) = frame_calls s"
  "frame_calls (s\<lparr>extra_ring_reads := rs\<rparr>) = frame_calls s"
  by (simp_all add: frame_calls_def draw_frame_def make_new_layer_def fill_circle_def Let_def
      emit_def fun_eq_iff)

lemma frame_calls_facts [simp]:
  "foregrounds (frame_calls s c) = (if frame_width s \<noteq> 0 then [c] else [])"
  "plain (frame_calls s c)"
  by (simp_all add: frame_calls_def draw_frame_def make_new_layer_def fill_circle_def Let_def
      emit_def)

lemma length_rings [simp]: "length rings = 6"
  by (simp add: rings_def)

lemma rings_nth [simp]:
  "rings ! 0 = draw_1st_ring" "rings ! Suc 0 = draw_2nd_ring" "rings ! 2 = draw_3rd_ring"
  "rings ! 3 = draw_4th_ring" "rings ! 4 = draw_5th_ring" "rings ! 5 = draw_6th_ring"
  by (simp_all add: rings_def)

lemma replicate_numerals:
  "replicate 6 c = [c, c, c, c, c, c]"
  "replicate 12 c = [c, c, c, c, c, c, c, c, c, c, c, c]"
  "replicate 18 c = [c, c, c, c, c, c, c, c, c, c, c, c, c, c, c, c, c, c]"
  by (simp_all add: eval_nat_numeral)

lemmas ring_defs =
  draw_center_circle_def draw_1st_ring_def draw_1st_ring_loop_def draw_2nd_ring_def
  draw_3rd_ring_def draw_4th_ring_def draw_5th_ring_def draw_6th_ring_def perimeter_pass_def
  perimeter_circle_def py_range_6 py_range_2 py_range_3 Let_def draw_flower_circle_emit
  draw_frame_emit

lemma is_some_list [simp]: "list_all (\<lambda>x. x \<noteq> None) (map Some ps)"
  by (simp add: list_all_iff)



lemma init_globals_fields [simp]:
  "ring_center (init_globals a m p cs lw fw fc) = replicate 6 None"
  "extra_ring (init_globals a m p cs lw fw fc) = replicate 12 None"
  "extra_ring_reads (init_globals a m p cs lw fw fc) = []"
  "rng_calls (init_globals a m p cs lw fw fc) = 0"
  "trace (init_globals a m p cs lw fw fc) = []"
  "ring_colors (init_globals a m p cs lw fw fc) = cs"
  "frame_color (init_globals a m p cs lw fw fc) = fc"
  "flower_type (init_globals a m p cs lw fw fc) = p"
  "color_mode (init_globals a m p cs lw fw fc) = m"
  "frame_width (init_globals a m p cs lw fw fc) = py_int (fw * of_int SCALE)"
  "image_size (init_globals a m p cs lw fw fc) = scale_size a p lw fw * SCALE"
  by (simp_all add: init_globals_def Let_def)

lemma py_int_of_int [simp]: "py_int (of_int n) = n"
  by (simp add: py_int_def)

lemma py_int_numeral [simp]: "py_int (numeral n) = numeral n" "py_int 0 = 0" "py_int 1 = 1"
  by (simp_all add: py_int_def)
section \<open>Rounding\<close>

subsection \<open>Evaluating a rounding\<close>

lemma double_unfold:
  "double x =
     sgn x
     * of_int (round_half_even
         (fst (if 1 \<le> \<bar>x\<bar> then scale_down 1023 \<bar>x\<bar> 1 else scale_up 1022 \<bar>x\<bar> 1) * 2 ^ 52))
     * snd (if 1 \<le> \<bar>x\<bar> then scale_down 1023 \<bar>x\<bar> 1 else scale_up 1022 \<bar>x\<bar> 1) / 2 ^ 52"
  by (simp add: double_def Let_def)

lemma round_half_even_unfold:
  "round_half_even y =
     (if y - of_int \<lfloor>y\<rfloor> < 1 / 2 then \<lfloor>y\<rfloor>
      else if 1 / 2 < y - of_int \<lfloor>y\<rfloor> then \<lfloor>y\<rfloor> + 1
      else if even \<lfloor>y\<rfloor> then \<lfloor>y\<rfloor> else \<lfloor>y\<rfloor> + 1)"
  by (simp add: round_half_even_def Let_def)

lemma double_0 [simp]: "double 0 = 0"
  by (simp add: double_def)

lemmas double_numeral =
  double_unfold [of "numeral a / numeral b"] double_unfold [of "numeral a"]
  double_unfold [of "1 / numeral b"] double_unfold [of "- (numeral a / numeral b)"]
  double_unfold [of "- numeral a"] double_unfold [of "- (1 / numeral b)"]
  double_unfold [of 1] double_unfold [of "- 1"]
  for a b

lemmas float_eval = double_numeral round_half_even_unfold scale_up.simps scale_down.simps

subsection \<open>The error of a rounding\<close>

lemma scale_down_props:
  assumes "1 \<le> x" and "0 < u"
  shows "fst (scale_down n x u) * snd (scale_down n x u) = x * u
     \<and> 1 \<le> fst (scale_down n x u) \<and> 0 < snd (scale_down n x u)"
  using assms
proof (induction n x u rule: scale_down.induct)
  case (1 n x u)
  show ?case
  proof (cases "n = 0 \<or> x < 2")
    case True
    then have "scale_down n x u = (x, u)" by (simp add: scale_down.simps)
    with 1(2,3) show ?thesis by simp
  next
    case False
    then have eq: "scale_down n x u = scale_down (n - 1) (x / 2) (u * 2)"
      by (subst scale_down.simps) simp
    from False 1(2,3) have "1 \<le> x / 2" "0 < u * 2" by simp_all
    from 1(1) [OF False this] show ?thesis unfolding eq by simp
  qed
qed

lemma scale_up_props:
  assumes "0 < x" and "0 < u"
  shows "fst (scale_up n x u) * snd (scale_up n x u) = x * u
     \<and> 0 < snd (scale_up n x u) \<and> snd (scale_up n x u) \<le> u"
  using assms
proof (induction n x u rule: scale_up.induct)
  case (1 n x u)
  show ?case
  proof (cases "n = 0 \<or> 1 \<le> x")
    case True
    then have "scale_up n x u = (x, u)" by (simp add: scale_up.simps)
    with 1(2,3) show ?thesis by simp
  next
    case False
    then have eq: "scale_up n x u = scale_up (n - 1) (x * 2) (u / 2)"
      by (subst scale_up.simps) simp
    from 1(2,3) have "0 < x * 2" "0 < u / 2" by simp_all
    from 1(1) [OF False this] 1(3) show ?thesis unfolding eq by simp
  qed
qed

lemma round_half_even_error: "\<bar>of_int (round_half_even y) - y\<bar> \<le> 1 / 2"
  unfolding round_half_even_def Let_def
  by (auto simp: abs_le_iff; linarith)

lemma double_error:
  assumes "\<bar>x\<bar> \<le> 512"
  shows "\<bar>double x - x\<bar> \<le> 1 / 2 ^ 44"
proof (cases "x = 0")
  case True
  then show ?thesis by simp
next
  case False
  define a where "a = \<bar>x\<bar>"
  define mu where "mu = (if 1 \<le> a then scale_down 1023 a 1 else scale_up 1022 a 1)"
  define y where "y = fst mu * 2 ^ 52"
  have a: "0 < a" "a \<le> 512" using False assms by (simp_all add: a_def)
  have mu: "fst mu * snd mu = a \<and> 0 < snd mu \<and> snd mu \<le> 512"
  proof (cases "1 \<le> a")
    case True
    from scale_down_props [OF True, of 1 1023] True
    have p: "fst mu * snd mu = a" "1 \<le> fst mu" "0 < snd mu"
      by (simp_all add: mu_def)
    have "snd mu = 1 * snd mu" by simp
    also have "\<dots> \<le> fst mu * snd mu" using p(2,3) by (intro mult_right_mono) simp_all
    finally show ?thesis using p a by simp
  next
    case False
    from scale_up_props [OF a(1), of 1 1022] False show ?thesis
      by (simp add: mu_def)
  qed
  have x: "x = sgn x * (fst mu * snd mu)"
    using mu by (simp add: a_def sgn_if abs_if)
  have d: "double x = sgn x * (of_int (round_half_even y) * snd mu / 2 ^ 52)"
    by (simp add: double_def Let_def a_def [symmetric] mu_def [symmetric] y_def)
  have "double x - x = sgn x * ((of_int (round_half_even y) - y) * (snd mu / 2 ^ 52))"
    by (subst x, subst d) (simp add: y_def algebra_simps)
  then have "\<bar>double x - x\<bar>
      = \<bar>sgn x\<bar> * (\<bar>of_int (round_half_even y) - y\<bar> * \<bar>snd mu / 2 ^ 52\<bar>)"
    by (simp only: abs_mult)
  also have "\<bar>sgn x\<bar> = 1" using False by (simp add: abs_sgn_eq)
  also have "\<bar>snd mu / 2 ^ 52\<bar> = snd mu / 2 ^ 52" using mu by simp
  finally have "\<bar>double x - x\<bar> = \<bar>of_int (round_half_even y) - y\<bar> * (snd mu / 2 ^ 52)"
    by simp
  also have "\<dots> \<le> 1 / 2 * (512 / 2 ^ 52)"
    using mu by (intro mult_mono round_half_even_error) simp_all
  also have "\<dots> = 1 / 2 ^ 44" by simp
  finally show ?thesis .
qed

subsection \<open>Computing with approximations\<close>

lemma eta_bounds: "0 < eta" "eta \<le> 1 / 10000000000000"
  by (simp_all add: eta_def)

lemma double_eta: "\<bar>x\<bar> \<le> 512 \<Longrightarrow> \<bar>double x - x\<bar> \<le> eta"
  unfolding eta_def by (rule double_error)

lemma near_double:
  assumes "\<bar>x - y\<bar> \<le> a" and "\<bar>y\<bar> \<le> 500" and "a \<le> 1"
  shows "\<bar>double x - y\<bar> \<le> a + eta"
proof -
  have "\<bar>x\<bar> \<le> 512" using assms by linarith
  from double_eta [OF this] assms(1) show ?thesis by linarith
qed

lemma near_mult:
  fixes x y :: real
  assumes "\<bar>x' - x\<bar> \<le> a" and "\<bar>y' - y\<bar> \<le> b" and "\<bar>x\<bar> \<le> X" and "\<bar>y'\<bar> \<le> Y"
  shows "\<bar>x' * y' - x * y\<bar> \<le> a * Y + X * b"
proof -
  have "x' * y' - x * y = (x' - x) * y' + x * (y' - y)" by (simp add: algebra_simps)
  also have "\<bar>\<dots>\<bar> \<le> \<bar>(x' - x) * y'\<bar> + \<bar>x * (y' - y)\<bar>" by (rule abs_triangle_ineq)
  also have "\<dots> = \<bar>x' - x\<bar> * \<bar>y'\<bar> + \<bar>x\<bar> * \<bar>y' - y\<bar>" by (simp add: abs_mult)
  also have "\<dots> \<le> a * Y + X * b"
    using assms by (intro add_mono mult_mono) (auto intro: order_trans [OF abs_ge_zero])
  finally show ?thesis .
qed

lemma near_div:
  fixes x y :: real
  assumes "\<bar>x' - x\<bar> \<le> a" and "\<bar>y' - y\<bar> \<le> b" and "d \<le> y" and "d \<le> y'" and "0 < d"
    and "\<bar>x\<bar> \<le> X"
  shows "\<bar>x' / y' - x / y\<bar> \<le> (a + X * b / d) / d"
proof -
  have pos: "0 < y" "0 < y'" using assms by linarith+
  have a0: "0 \<le> a" and b0: "0 \<le> b" and X0: "0 \<le> X" using assms by linarith+
  have "x' / y' - x / y = (x' - x) / y' + x * (y - y') / (y * y')"
    using pos by (simp add: field_simps)
  also have "\<bar>\<dots>\<bar> \<le> \<bar>(x' - x) / y'\<bar> + \<bar>x * (y - y') / (y * y')\<bar>"
    by (rule abs_triangle_ineq)
  also have "\<dots> = \<bar>x' - x\<bar> / y' + \<bar>x\<bar> * \<bar>y - y'\<bar> / (y * y')"
    using pos by (simp add: abs_mult)
  also have "\<dots> \<le> a / d + X * b / (d * d)"
  proof (intro add_mono frac_le mult_mono)
    show "\<bar>y - y'\<bar> \<le> b" using assms(2) by linarith
  qed (use assms pos a0 b0 X0 in simp_all)
  also have "\<dots> = (a + X * b / d) / d"
    using assms(5) by (simp add: field_simps)
  finally show ?thesis .
qed

lemma near_quotient:
  fixes x y :: real
  assumes "\<bar>x' - x\<bar> \<le> a" and "\<bar>y' - y\<bar> \<le> b" and "1 / 256 \<le> y" and "1 / 256 \<le> y'"
    and "\<bar>x\<bar> \<le> 1"
  shows "\<bar>x' / y' - x / y\<bar> \<le> 256 * a + 65536 * b"
  using near_div [OF assms(1-4) _ assms(5)] by simp

lemma mod_1_near:
  "\<exists>k::int. \<bar>mod_1 x - (x - of_int k)\<bar> \<le> eta \<and> - eta \<le> mod_1 x \<and> mod_1 x \<le> 1 + eta"
proof (cases "0 \<le> x")
  case True
  have fl: "0 \<le> x - of_int \<lfloor>x\<rfloor>" "x - of_int \<lfloor>x\<rfloor> < 1" by linarith+
  have "\<not> x < of_int \<lfloor>x\<rfloor>" by linarith
  with True have "mod_1 x = x - of_int \<lfloor>x\<rfloor>"
    by (simp add: mod_1_def Let_def)
  with fl eta_bounds
  have "\<bar>mod_1 x - (x - of_int \<lfloor>x\<rfloor>)\<bar> \<le> eta \<and> - eta \<le> mod_1 x \<and> mod_1 x \<le> 1 + eta"
    by (intro conjI) linarith+
  then show ?thesis by blast
next
  case False
  define m where "m = x - of_int \<lceil>x\<rceil>"
  have m: "- 1 < m" "m \<le> 0" unfolding m_def by linarith+
  show ?thesis
  proof (cases "m < 0")
    case True
    then have eq: "mod_1 x = double (m + 1)"
      using False by (simp add: mod_1_def Let_def m_def)
    have "\<bar>double (m + 1) - (m + 1)\<bar> \<le> eta"
      using m by (intro double_eta) simp
    moreover have "x - of_int (\<lceil>x\<rceil> - 1) = m + 1" by (simp add: m_def)
    ultimately have "\<bar>mod_1 x - (x - of_int (\<lceil>x\<rceil> - 1))\<bar> \<le> eta \<and> - eta \<le> mod_1 x
        \<and> mod_1 x \<le> 1 + eta"
      unfolding eq using m by (intro conjI) linarith+
    then show ?thesis by blast
  next
    case nonneg: False
    with m have "m = 0" by simp
    then have "mod_1 x = 0" "x - of_int \<lceil>x\<rceil> = 0"
      using False by (simp_all add: mod_1_def Let_def m_def)
    with eta_bounds
    have "\<bar>mod_1 x - (x - of_int \<lceil>x\<rceil>)\<bar> \<le> eta \<and> - eta \<le> mod_1 x \<and> mod_1 x \<le> 1 + eta"
      by (intro conjI) linarith+
    then show ?thesis by blast
  qed
qed

subsection \<open>The three components as doubles\<close>

lemma unit_near:
  assumes "0 \<le> c" and "c \<le> 255"
  shows "\<bar>double (of_int c / 255) - of_int c / 255\<bar> \<le> eta"
  using assms by (intro double_eta) simp

lemma unit_less:
  assumes "0 \<le> a" and "a < b" and "b \<le> 255"
  shows "double (of_int a / 255) < double (of_int b / 255)"
proof -
  have "of_int a + 1 \<le> (of_int b :: real)" using assms(2) by linarith
  moreover have "\<bar>double (of_int a / 255) - of_int a / 255\<bar> \<le> eta"
    "\<bar>double (of_int b / 255) - of_int b / 255\<bar> \<le> eta"
    using assms by (intro unit_near; simp)+
  ultimately show ?thesis using eta_bounds by linarith
qed

lemma unit_eq:
  assumes "0 \<le> a" "a \<le> 255" "0 \<le> b" "b \<le> 255"
  shows "double (of_int a / 255) = double (of_int b / 255) \<longleftrightarrow> a = b"
  using unit_less [of a b] unit_less [of b a] assms by (cases a b rule: linorder_cases) auto

lemma unit_max:
  assumes "0 \<le> a" "a \<le> 255" "0 \<le> b" "b \<le> 255"
  shows "max (double (of_int a / 255)) (double (of_int b / 255)) = double (of_int (max a b) / 255)"
    and "min (double (of_int a / 255)) (double (of_int b / 255)) = double (of_int (min a b) / 255)"
  using unit_less [of a b] unit_less [of b a] assms
  by (cases a b rule: linorder_cases; simp add: max_def min_def)+

section \<open>The colour conversions, up to rounding\<close>

subsection \<open>From RGB to HLS\<close>

lemma rgb_to_hls_grey:
  assumes "0 \<le> c" and "c \<le> 255"
  shows "\<exists>l. rgb_to_hls (double (of_int c / 255)) (double (of_int c / 255))
        (double (of_int c / 255)) = Inr (0, l, 0)
     \<and> \<bar>l - of_int c / 255\<bar> \<le> 3 * eta"
proof -
  define q :: real where "q = of_int c / 255"
  define x where "x = double q"
  have q: "0 \<le> q" "q \<le> 1" using assms by (simp_all add: q_def)
  have x: "\<bar>x - q\<bar> \<le> eta" unfolding x_def q_def using assms by (rule unit_near)
  have s: "\<bar>double (x + x) - (q + q)\<bar> \<le> 2 * eta + eta"
    by (rule near_double; use x q eta_bounds in argo)
  have l: "\<bar>double (double (x + x) / 2) - q\<bar> \<le> 2 * eta + eta"
    by (rule near_double; use s q eta_bounds in argo)
  have "rgb_to_hls x x x = Inr (0, double (double (x + x) / 2), 0)"
    by (simp add: rgb_to_hls_def Let_def)
  moreover have "\<bar>double (double (x + x) / 2) - q\<bar> \<le> 3 * eta"
    using l eta_bounds by argo
  ultimately show ?thesis unfolding x_def q_def by blast
qed

lemma rgb_to_hls_near:
  fixes c0 c1 c2 :: int
  assumes "0 \<le> c0" "c0 \<le> 255" "0 \<le> c1" "c1 \<le> 255" "0 \<le> c2" "c2 \<le> 255"
    and "min (min c0 c1) c2 < max (max c0 c1) c2"
  defines "M \<equiv> of_int (max (max c0 c1) c2) / 255"
    and "m \<equiv> of_int (min (min c0 c1) c2) / 255"
  defines "rc \<equiv> (M - of_int c0 / 255) / (M - m)"
    and "gc \<equiv> (M - of_int c1 / 255) / (M - m)"
    and "bc \<equiv> (M - of_int c2 / 255) / (M - m)"
  shows "\<exists>h l s. rgb_to_hls (double (of_int c0 / 255)) (double (of_int c1 / 255))
        (double (of_int c2 / 255)) = Inr (h, l, s)
     \<and> \<bar>l - (M + m) / 2\<bar> \<le> 3 * eta
     \<and> \<bar>s - (M - m) / (if l \<le> 1 / 2 then M + m else 2 - M - m)\<bar> \<le> 1048576 * eta
     \<and> (\<exists>k::int. \<bar>h - (sextant rc gc bc + of_int k)\<bar> \<le> 1048576 * eta)
     \<and> - eta \<le> h \<and> h \<le> 1 + eta"
proof -
  define Mi where "Mi = max (max c0 c1) c2"
  define mi where "mi = min (min c0 c1) c2"
  define R where "R = M - m"
  define Mx where "Mx = double (of_int Mi / 255)"
  define mn where "mn = double (of_int mi / 255)"
  have ints: "0 \<le> mi" "mi < Mi" "Mi \<le> 255"
    and within: "mi \<le> c0" "c0 \<le> Mi" "mi \<le> c1" "c1 \<le> Mi" "mi \<le> c2" "c2 \<le> Mi"
    using assms(1-7) unfolding Mi_def mi_def by (auto simp: max_def min_def)
  have M: "M = of_int Mi / 255" and m: "m = of_int mi / 255"
    by (simp_all add: M_def m_def Mi_def mi_def)
  have exact: "0 \<le> m" "M \<le> 1" "1 / 255 \<le> R" "R \<le> 1" "R \<le> M + m" "R \<le> 2 - M - m"
    "m \<le> M" "R = M - m"
    using ints unfolding R_def M m by simp_all
  have maxeq: "max (max (double (of_int c0 / 255)) (double (of_int c1 / 255)))
      (double (of_int c2 / 255)) = Mx"
    and mineq: "min (min (double (of_int c0 / 255)) (double (of_int c1 / 255)))
      (double (of_int c2 / 255)) = mn"
    using assms(1-6) by (simp_all add: unit_max Mx_def mn_def Mi_def mi_def)
  have neq: "mn \<noteq> Mx"
    unfolding Mx_def mn_def using ints by (subst unit_eq) simp_all
  have Mx: "\<bar>Mx - M\<bar> \<le> eta" and mn: "\<bar>mn - m\<bar> \<le> eta"
    unfolding Mx_def mn_def M m using ints by (intro unit_near; simp)+
  define sumc where "sumc = double (Mx + mn)"
  define rangec where "rangec = double (Mx - mn)"
  define lt where "lt = double (sumc / 2)"
  define dt where "dt = (if lt \<le> 1 / 2 then sumc else double (double (2 - Mx) - mn))"
  define D where "D = (if lt \<le> 1 / 2 then M + m else 2 - M - m)"
  define st where "st = double (rangec / dt)"
  have sumc: "\<bar>sumc - (M + m)\<bar> \<le> 2 * eta + eta"
    unfolding sumc_def by (rule near_double; use Mx mn exact eta_bounds in argo)
  have rangec: "\<bar>rangec - R\<bar> \<le> 2 * eta + eta"
    unfolding rangec_def by (rule near_double; use Mx mn exact eta_bounds in argo)
  have lt: "\<bar>lt - (M + m) / 2\<bar> \<le> 2 * eta + eta"
    unfolding lt_def by (rule near_double; use sumc exact eta_bounds in argo)
  have two: "\<bar>double (2 - Mx) - (2 - M)\<bar> \<le> eta + eta"
    by (rule near_double; use Mx exact eta_bounds in argo)
  have other: "\<bar>double (double (2 - Mx) - mn) - (2 - M - m)\<bar> \<le> 3 * eta + eta"
    by (rule near_double; use two mn exact eta_bounds in argo)
  have dt: "\<bar>dt - D\<bar> \<le> 4 * eta"
    unfolding dt_def D_def using sumc other eta_bounds by (cases "lt \<le> 1 / 2") simp_all
  have D: "1 / 255 \<le> D" "R \<le> D"
    unfolding D_def using exact by (simp_all add: R_def)
  have low: "1 / 256 \<le> R" "1 / 256 \<le> rangec" "1 / 256 \<le> D" "1 / 256 \<le> dt"
    using exact rangec D dt eta_bounds by argo+
  have S: "0 \<le> R / D" "R / D \<le> 1"
    using D exact by (simp_all add: divide_le_eq)
  have sq: "\<bar>rangec / dt - R / D\<bar> \<le> 256 * (3 * eta) + 65536 * (4 * eta)"
    by (rule near_quotient; use rangec dt low exact in argo)
  have st: "\<bar>st - R / D\<bar> \<le> (256 * (3 * eta) + 65536 * (4 * eta)) + eta"
    unfolding st_def by (rule near_double; use sq S eta_bounds in argo)
  have comp: "\<bar>double (double (Mx - double (of_int c / 255)) / rangec)
      - (M - of_int c / 255) / R\<bar> \<le> 197377 * eta
    \<and> 0 \<le> (M - of_int c / 255) / R \<and> (M - of_int c / 255) / R \<le> 1"
    if c: "mi \<le> c" "c \<le> Mi" for c
  proof -
    define q :: real where "q = of_int c / 255"
    have q: "m \<le> q" "q \<le> M" unfolding q_def M m using c by simp_all
    have x: "\<bar>double q - q\<bar> \<le> eta"
      unfolding q_def using c ints by (intro unit_near) simp_all
    have n: "\<bar>double (Mx - double q) - (M - q)\<bar> \<le> 2 * eta + eta"
      by (rule near_double; use x Mx q exact eta_bounds in argo)
    have "M - q \<le> R" "0 \<le> M - q" using q by (simp_all add: R_def)
    with exact have u: "0 \<le> (M - q) / R" "(M - q) / R \<le> 1"
      by (simp_all add: divide_le_eq)
    have d: "\<bar>double (Mx - double q) / rangec - (M - q) / R\<bar>
        \<le> 256 * (3 * eta) + 65536 * (3 * eta)"
      by (rule near_quotient; use n rangec low q exact in argo)
    have "\<bar>double (double (Mx - double q) / rangec) - (M - q) / R\<bar>
        \<le> (256 * (3 * eta) + 65536 * (3 * eta)) + eta"
      by (rule near_double; use d u eta_bounds in argo)
    with u show ?thesis unfolding q_def by (intro conjI) argo+
  qed
  define rct where "rct = double (double (Mx - double (of_int c0 / 255)) / rangec)"
  define gct where "gct = double (double (Mx - double (of_int c1 / 255)) / rangec)"
  define bct where "bct = double (double (Mx - double (of_int c2 / 255)) / rangec)"
  have rc: "rc = (M - of_int c0 / 255) / R" and gc: "gc = (M - of_int c1 / 255) / R"
    and bc: "bc = (M - of_int c2 / 255) / R"
    by (simp_all add: rc_def gc_def bc_def R_def)
  have rct: "\<bar>rct - rc\<bar> \<le> 197377 * eta" "0 \<le> rc" "rc \<le> 1"
    unfolding rct_def rc using comp [OF within(1,2)] by simp_all
  have gct: "\<bar>gct - gc\<bar> \<le> 197377 * eta" "0 \<le> gc" "gc \<le> 1"
    unfolding gct_def gc using comp [OF within(3,4)] by simp_all
  have bct: "\<bar>bct - bc\<bar> \<le> 197377 * eta" "0 \<le> bc" "bc \<le> 1"
    unfolding bct_def bc using comp [OF within(5,6)] by simp_all
  have zero: "rc = 0 \<longleftrightarrow> c0 = Mi" "gc = 0 \<longleftrightarrow> c1 = Mi"
    using exact unfolding rc gc M by auto
  have top: "double (of_int c0 / 255) = Mx \<longleftrightarrow> c0 = Mi"
    "double (of_int c1 / 255) = Mx \<longleftrightarrow> c1 = Mi"
    unfolding Mx_def using assms(1-6) ints by (subst unit_eq; simp)+
  define ht where "ht =
    (if double (of_int c0 / 255) = Mx then double (bct - gct)
     else if double (of_int c1 / 255) = Mx then double (double (2 + rct) - bct)
     else double (double (4 + gct) - rct))"
  have ht: "\<bar>ht - 6 * sextant rc gc bc\<bar> \<le> 394757 * eta"
  proof (cases "c0 = Mi")
    case True
    have a: "double (of_int c0 / 255) = Mx" using True top(1) by blast
    have b: "rc = 0" using True zero(1) by blast
    have e1: "ht = double (bct - gct)" unfolding ht_def using a by simp
    have e2: "6 * sextant rc gc bc = bc - gc" unfolding sextant_def using b by simp
    have "\<bar>double (bct - gct) - (bc - gc)\<bar> \<le> (197377 * eta + 197377 * eta) + eta"
      by (rule near_double; use bct gct eta_bounds in argo)
    then show ?thesis unfolding e1 e2 using eta_bounds by argo
  next
    case False
    have a: "double (of_int c0 / 255) \<noteq> Mx" using False top(1) by blast
    have b: "rc \<noteq> 0" using False zero(1) by blast
    show ?thesis
    proof (cases "c1 = Mi")
      case True
      have a': "double (of_int c1 / 255) = Mx" using True top(2) by blast
      have b': "gc = 0" using True zero(2) by blast
      have e1: "ht = double (double (2 + rct) - bct)" unfolding ht_def using a a' by simp
      have e2: "6 * sextant rc gc bc = 2 + rc - bc" unfolding sextant_def using b b' by simp
      have "\<bar>double (2 + rct) - (2 + rc)\<bar> \<le> 197377 * eta + eta"
        by (rule near_double; use rct eta_bounds in argo)
      then have "\<bar>double (double (2 + rct) - bct) - (2 + rc - bc)\<bar>
          \<le> (197377 * eta + eta + 197377 * eta) + eta"
        by (intro near_double; use rct bct eta_bounds in argo)
      then show ?thesis unfolding e1 e2 using eta_bounds by argo
    next
      case neither: False
      have a': "double (of_int c1 / 255) \<noteq> Mx" using neither top(2) by blast
      have b': "gc \<noteq> 0" using neither zero(2) by blast
      have e1: "ht = double (double (4 + gct) - rct)" unfolding ht_def using a a' by simp
      have e2: "6 * sextant rc gc bc = 4 + gc - rc" unfolding sextant_def using b b' by simp
      have "\<bar>double (4 + gct) - (4 + gc)\<bar> \<le> 197377 * eta + eta"
        by (rule near_double; use gct eta_bounds in argo)
      then have "\<bar>double (double (4 + gct) - rct) - (4 + gc - rc)\<bar>
          \<le> (197377 * eta + eta + 197377 * eta) + eta"
        by (intro near_double; use rct gct eta_bounds in argo)
      then show ?thesis unfolding e1 e2 using eta_bounds by argo
    qed
  qed
  have sx: "\<bar>sextant rc gc bc\<bar> \<le> 1"
    using rct(2,3) gct(2,3) bct(2,3) unfolding sextant_def by (simp split: if_splits) argo+
  have h6: "\<bar>double (ht / 6) - sextant rc gc bc\<bar> \<le> 65793 * eta + eta"
    by (rule near_double; use ht sx eta_bounds in argo)
  from mod_1_near [of "double (ht / 6)"] obtain k :: int where
    k: "\<bar>mod_1 (double (ht / 6)) - (double (ht / 6) - of_int k)\<bar> \<le> eta"
      "- eta \<le> mod_1 (double (ht / 6))" "mod_1 (double (ht / 6)) \<le> 1 + eta"
    by blast
  have hue: "\<bar>mod_1 (double (ht / 6)) - (sextant rc gc bc + of_int (- k))\<bar> \<le> 1048576 * eta"
    using k(1) h6 eta_bounds by simp
  have run: "rgb_to_hls (double (of_int c0 / 255)) (double (of_int c1 / 255))
        (double (of_int c2 / 255)) = Inr (mod_1 (double (ht / 6)), lt, st)"
  proof -
    have "dt \<noteq> 0" "rangec \<noteq> 0" using low(2,4) by argo+
    then show ?thesis
      unfolding rgb_to_hls_def Let_def maxeq mineq
      using neq
      by (auto simp: ht_def lt_def st_def dt_def sumc_def rangec_def rct_def gct_def bct_def)
  qed
  have "\<bar>lt - (M + m) / 2\<bar> \<le> 3 * eta" using lt eta_bounds by argo
  moreover have "\<bar>st - (M - m) / (if lt \<le> 1 / 2 then M + m else 2 - M - m)\<bar> \<le> 1048576 * eta"
    using st eta_bounds unfolding D_def R_def by argo
  ultimately show ?thesis using run hue k(2,3) by blast
qed

subsection \<open>The wave of \<open>_v\<close>\<close>

lemma wave_shift [simp]: "wave (t + of_int k) = wave t" "wave (of_int k + t) = wave t"
  by (simp_all add: wave_def)

lemma wave_closed:
  assumes "of_int n \<le> x" and "x \<le> of_int n + 1"
  shows "wave x = max 0 (min 1 (min (6 * (x - of_int n)) (6 * (of_int n + 2 / 3 - x))))"
proof (cases "x = of_int n + 1")
  case True
  have "\<lfloor>x\<rfloor> = n + 1" unfolding True by simp
  then show ?thesis unfolding wave_def Let_def by (simp add: True)
next
  case False
  with assms have "\<lfloor>x\<rfloor> = n" by (intro floor_unique) simp_all
  then show ?thesis unfolding wave_def Let_def by (simp add: algebra_simps)
qed

lemma wave_range: "0 \<le> wave t" "wave t \<le> 1"
  by (simp_all add: wave_def Let_def)

lemma wave_at:
  assumes "of_int n \<le> x" and "x \<le> of_int n + 1"
    and "max 0 (min 1 (min (6 * (x - of_int n)) (6 * (of_int n + 2 / 3 - x)))) = v"
  shows "wave x = v"
  using wave_closed [OF assms(1,2)] assms(3) by simp

lemma wave_hue:
  fixes rc gc bc :: real
  assumes b: "0 \<le> rc" "rc \<le> 1" "0 \<le> gc" "gc \<le> 1" "0 \<le> bc" "bc \<le> 1"
    and mx: "rc = 0 \<or> gc = 0 \<or> bc = 0" and mn: "rc = 1 \<or> gc = 1 \<or> bc = 1"
  defines "h \<equiv> (if rc = 0 then bc - gc else if gc = 0 then 2 + rc - bc else 4 + gc - rc) / 6"
  shows "wave (h + 1 / 3) = 1 - rc \<and> wave h = 1 - gc \<and> wave (h - 1 / 3) = 1 - bc
    \<and> wave (- h + 1 / 3) = 1 - rc \<and> wave (- h) = 1 - bc \<and> wave (- h - 1 / 3) = 1 - gc"
proof -
  consider (r_g) "rc = 0" "gc = 1" | (r_b) "rc = 0" "bc = 1"
    | (g_r) "rc \<noteq> 0" "gc = 0" "rc = 1" | (g_b) "rc \<noteq> 0" "gc = 0" "bc = 1"
    | (b_r) "rc \<noteq> 0" "gc \<noteq> 0" "bc = 0" "rc = 1" | (b_g) "rc \<noteq> 0" "gc \<noteq> 0" "bc = 0" "gc = 1"
    using mx mn by auto
  then show ?thesis
  proof cases
    case r_g
    then have h: "h = (bc - 1) / 6" by (simp add: h_def)
    show ?thesis
      unfolding h using b r_g
      by (intro conjI wave_at [of 0 "(bc - 1) / 6 + 1 / 3"] wave_at [of "- 1" "(bc - 1) / 6"]
          wave_at [of "- 1" "(bc - 1) / 6 - 1 / 3"] wave_at [of 0 "- ((bc - 1) / 6) + 1 / 3"]
          wave_at [of 0 "- ((bc - 1) / 6)"] wave_at [of "- 1" "- ((bc - 1) / 6) - 1 / 3"])
        (simp_all add: max_def min_def field_simps)
  next
    case r_b
    then have h: "h = (1 - gc) / 6" by (simp add: h_def)
    show ?thesis
      unfolding h using b r_b
      by (intro conjI wave_at [of 0 "(1 - gc) / 6 + 1 / 3"] wave_at [of 0 "(1 - gc) / 6"]
          wave_at [of "- 1" "(1 - gc) / 6 - 1 / 3"] wave_at [of 0 "- ((1 - gc) / 6) + 1 / 3"]
          wave_at [of "- 1" "- ((1 - gc) / 6)"] wave_at [of "- 1" "- ((1 - gc) / 6) - 1 / 3"])
        (simp_all add: max_def min_def field_simps)
  next
    case g_r
    then have h: "h = (3 - bc) / 6" by (simp add: h_def)
    show ?thesis
      unfolding h using b g_r
      by (intro conjI wave_at [of 0 "(3 - bc) / 6 + 1 / 3"] wave_at [of 0 "(3 - bc) / 6"]
          wave_at [of 0 "(3 - bc) / 6 - 1 / 3"] wave_at [of "- 1" "- ((3 - bc) / 6) + 1 / 3"]
          wave_at [of "- 1" "- ((3 - bc) / 6)"] wave_at [of "- 1" "- ((3 - bc) / 6) - 1 / 3"])
        (simp_all add: max_def min_def field_simps)
  next
    case g_b
    then have h: "h = (1 + rc) / 6" by (simp add: h_def)
    show ?thesis
      unfolding h using b g_b
      by (intro conjI wave_at [of 0 "(1 + rc) / 6 + 1 / 3"] wave_at [of 0 "(1 + rc) / 6"]
          wave_at [of "- 1" "(1 + rc) / 6 - 1 / 3"] wave_at [of 0 "- ((1 + rc) / 6) + 1 / 3"]
          wave_at [of "- 1" "- ((1 + rc) / 6)"] wave_at [of "- 1" "- ((1 + rc) / 6) - 1 / 3"])
        (simp_all add: max_def min_def field_simps)
  next
    case b_r
    then have h: "h = (3 + gc) / 6" by (simp add: h_def)
    show ?thesis
      unfolding h using b b_r
      by (intro conjI wave_at [of 0 "(3 + gc) / 6 + 1 / 3"] wave_at [of 0 "(3 + gc) / 6"]
          wave_at [of 0 "(3 + gc) / 6 - 1 / 3"] wave_at [of "- 1" "- ((3 + gc) / 6) + 1 / 3"]
          wave_at [of "- 1" "- ((3 + gc) / 6)"] wave_at [of "- 1" "- ((3 + gc) / 6) - 1 / 3"])
        (simp_all add: max_def min_def field_simps)
  next
    case b_g
    then have h: "h = (5 - rc) / 6" by (simp add: h_def)
    show ?thesis
      unfolding h using b b_g
      by (intro conjI wave_at [of 1 "(5 - rc) / 6 + 1 / 3"] wave_at [of 0 "(5 - rc) / 6"]
          wave_at [of 0 "(5 - rc) / 6 - 1 / 3"] wave_at [of "- 1" "- ((5 - rc) / 6) + 1 / 3"]
          wave_at [of "- 1" "- ((5 - rc) / 6)"] wave_at [of "- 2" "- ((5 - rc) / 6) - 1 / 3"])
        (simp_all add: max_def min_def field_simps)
  qed
qed

lemma wave_near:
  assumes "\<bar>x - (y + of_int k)\<bar> \<le> e" and "e \<le> 1 / 6"
  shows "\<bar>wave x - wave y\<bar> \<le> 6 * e"
proof -
  define z where "z = y + of_int k"
  define n where "n = \<lfloor>x\<rfloor>"
  have wz: "wave y = wave z" by (simp add: z_def)
  have x: "of_int n \<le> x" "x \<le> of_int n + 1" unfolding n_def by linarith+
  have z: "\<bar>x - z\<bar> \<le> e" using assms(1) by (simp add: z_def)
  note wx = wave_closed [OF x]
  consider "z < of_int n" | "of_int n \<le> z" "z \<le> of_int n + 1" | "of_int n + 1 < z"
    by linarith
  then show ?thesis
  proof cases
    case 1
    have c: "(of_int (n - 1) :: real) = of_int n - 1" by simp
    have "of_int (n - 1) \<le> z" "z \<le> of_int (n - 1) + 1"
      unfolding c using 1 z x assms(2) by argo+
    from wave_closed [OF this] show ?thesis
      unfolding wz wx c using 1 z x assms(2) by argo
  next
    case 2
    from wave_closed [OF this] show ?thesis
      unfolding wz wx using 2 z x assms(2) by argo
  next
    case 3
    have c: "(of_int (n + 1) :: real) = of_int n + 1" by simp
    have "of_int (n + 1) \<le> z" "z \<le> of_int (n + 1) + 1"
      unfolding c using 3 z x assms(2) by argo+
    from wave_closed [OF this] show ?thesis
      unfolding wz wx c using 3 z x assms(2) by argo
  qed
qed

lemma wave_branches:
  assumes "- eta \<le> t" and "t \<le> 1 + eta" and "\<bar>a - 1 / 6\<bar> \<le> eta" and "\<bar>b - 2 / 3\<bar> \<le> eta"
  shows "t < a \<Longrightarrow> \<bar>6 * t - wave t\<bar> \<le> 6 * eta"
    and "a \<le> t \<Longrightarrow> t < 1 / 2 \<Longrightarrow> \<bar>1 - wave t\<bar> \<le> 6 * eta"
    and "1 / 2 \<le> t \<Longrightarrow> t < b \<Longrightarrow> \<bar>6 * (2 / 3 - t) - wave t\<bar> \<le> 6 * eta"
    and "b \<le> t \<Longrightarrow> \<bar>wave t\<bar> \<le> 6 * eta"
proof -
  consider "t < 0" | "0 \<le> t" "t \<le> 1" | "1 < t" by linarith
  then have w: "(t < 0 \<and> wave t = max 0 (min 1 (min (6 * (t + 1)) (6 * (- 1 + 2 / 3 - t)))))
    \<or> (0 \<le> t \<and> t \<le> 1 \<and> wave t = max 0 (min 1 (min (6 * t) (6 * (2 / 3 - t)))))
    \<or> (1 < t \<and> wave t = max 0 (min 1 (min (6 * (t - 1)) (6 * (1 + 2 / 3 - t)))))"
  proof cases
    case 1
    with assms(1) eta_bounds have "of_int (- 1) \<le> t" "t \<le> of_int (- 1) + 1" by simp_all
    from wave_closed [OF this] 1 show ?thesis by simp
  next
    case 2
    then have "of_int 0 \<le> t" "t \<le> of_int 0 + 1" by simp_all
    from wave_closed [OF this] 2 show ?thesis by simp
  next
    case 3
    with assms(2) eta_bounds have "of_int 1 \<le> t" "t \<le> of_int 1 + 1" by simp_all
    from wave_closed [OF this] 3 show ?thesis by simp
  qed
  show "t < a \<Longrightarrow> \<bar>6 * t - wave t\<bar> \<le> 6 * eta"
    using w assms eta_bounds by argo
  show "a \<le> t \<Longrightarrow> t < 1 / 2 \<Longrightarrow> \<bar>1 - wave t\<bar> \<le> 6 * eta"
    using w assms eta_bounds by argo
  show "1 / 2 \<le> t \<Longrightarrow> t < b \<Longrightarrow> \<bar>6 * (2 / 3 - t) - wave t\<bar> \<le> 6 * eta"
    using w assms eta_bounds by argo
  show "b \<le> t \<Longrightarrow> \<bar>wave t\<bar> \<le> 6 * eta"
    using w assms eta_bounds by argo
qed

subsection \<open>From HLS to RGB\<close>

lemma prod_bound:
  fixes x y :: real
  assumes "\<bar>x\<bar> \<le> X" and "\<bar>y\<bar> \<le> Y"
  shows "\<bar>x * y\<bar> \<le> X * Y"
  unfolding abs_mult using assms by (intro mult_mono) (auto intro: order_trans [OF abs_ge_zero])

lemma scale_small:
  fixes R z :: real
  assumes "0 \<le> R" and "R \<le> 1" and "\<bar>z\<bar> \<le> e"
  shows "\<bar>R * z\<bar> \<le> e"
proof -
  have "\<bar>R * z\<bar> \<le> 1 * e"
    using assms by (intro prod_bound) simp_all
  then show ?thesis by simp
qed

lemma thirds:
  "\<bar>ONE_THIRD - 1 / 3\<bar> \<le> eta" "\<bar>ONE_SIXTH - 1 / 6\<bar> \<le> eta" "\<bar>TWO_THIRD - 2 / 3\<bar> \<le> eta"
  unfolding ONE_THIRD_def ONE_SIXTH_def TWO_THIRD_def by (intro double_eta; simp)+

lemma hls_v_near:
  assumes m1: "\<bar>m1' - m1\<bar> \<le> 5242880 * eta" and m2: "\<bar>m2' - (m1 + R)\<bar> \<le> 5242880 * eta"
    and R: "0 \<le> R" "R \<le> 1" and m1r: "0 \<le> m1" "m1 \<le> 1"
    and x: "\<bar>x' - (x + of_int k)\<bar> \<le> 3145728 * eta"
  shows "\<bar>hls_v m1' m2' x' - (m1 + R * wave x)\<bar> \<le> 209715200 * eta"
proof -
  define hue where "hue = mod_1 x'"
  define dl where "dl = double (m2' - m1')"
  define w where "w = wave x"
  define wh where "wh = wave hue"
  define q where "q = R * w"
  from mod_1_near [of x'] obtain j :: int where
    j: "\<bar>hue - (x' - of_int j)\<bar> \<le> eta" and hue: "- eta \<le> hue" "hue \<le> 1 + eta"
    unfolding hue_def by blast
  have c: "(of_int (k - j) :: real) = of_int k - of_int j" by simp
  have "\<bar>hue - (x + of_int (k - j))\<bar> \<le> 4194304 * eta"
    unfolding c using j x eta_bounds by argo
  moreover have "4194304 * eta \<le> 1 / 6" using eta_bounds by argo
  ultimately have "\<bar>wave hue - wave x\<bar> \<le> 6 * (4194304 * eta)" by (rule wave_near)
  then have ww: "\<bar>wh - w\<bar> \<le> 25165824 * eta" unfolding wh_def w_def by argo
  note br = wave_branches [OF hue thirds(2,3), folded wh_def]
  have dl: "\<bar>dl - R\<bar> \<le> 10485760 * eta + eta"
    unfolding dl_def by (rule near_double; use m1 m2 R m1r eta_bounds in argo)
  have small: "\<bar>R * d\<bar> \<le> 25165830 * eta" if "\<bar>d\<bar> \<le> 25165830 * eta" for d
    using R that by (rule scale_small)
  consider (rise) "hue < ONE_SIXTH" | (top) "ONE_SIXTH \<le> hue" "hue < 1 / 2"
    | (fall) "ONE_SIXTH \<le> hue" "1 / 2 \<le> hue" "hue < TWO_THIRD"
    | (bottom) "ONE_SIXTH \<le> hue" "1 / 2 \<le> hue" "TWO_THIRD \<le> hue"
    by linarith
  then have "\<bar>hls_v m1' m2' x' - (m1 + q)\<bar> \<le> 209715200 * eta"
  proof cases
    case rise
    define p where "p = R * hue"
    have v: "hls_v m1' m2' x' = double (m1' + double (double (dl * hue) * 6))"
      using rise by (simp add: hls_v_def Let_def hue_def dl_def)
    have "\<bar>dl * hue - R * hue\<bar> \<le> (10485760 * eta + eta) * 2 + 1 * 0"
      by (rule near_mult [OF dl]; use hue R eta_bounds in argo)
    then have p1: "\<bar>dl * hue - p\<bar> \<le> 20971522 * eta" unfolding p_def by argo
    have "\<bar>R * hue\<bar> \<le> 1 * 2" by (rule prod_bound; use hue R eta_bounds in argo)
    then have pb: "\<bar>p\<bar> \<le> 2" unfolding p_def by simp
    have t1: "\<bar>double (dl * hue) - p\<bar> \<le> 20971522 * eta + eta"
      by (rule near_double; use p1 pb eta_bounds in argo)
    have t2: "\<bar>double (double (dl * hue) * 6) - 6 * p\<bar> \<le> 125829138 * eta + eta"
      by (rule near_double; use t1 pb eta_bounds in argo)
    have t3: "\<bar>double (m1' + double (double (dl * hue) * 6)) - (m1 + 6 * p)\<bar>
        \<le> 131072019 * eta + eta"
      by (rule near_double; use t2 m1 m1r pb eta_bounds in argo)
    have "\<bar>6 * hue - w\<bar> \<le> 25165830 * eta" using br(1) [OF rise] ww by argo
    from small [OF this] have "\<bar>6 * p - q\<bar> \<le> 25165830 * eta"
      by (simp add: p_def q_def algebra_simps)
    with t3 show ?thesis unfolding v using eta_bounds by argo
  next
    case top
    have v: "hls_v m1' m2' x' = m2'"
      using top by (simp add: hls_v_def Let_def hue_def)
    have "\<bar>1 - w\<bar> \<le> 25165830 * eta" using br(2) [OF top] ww by argo
    from small [OF this] have "\<bar>R - q\<bar> \<le> 25165830 * eta"
      by (simp add: q_def algebra_simps)
    with m2 show ?thesis unfolding v using eta_bounds by argo
  next
    case fall
    define z where "z = 2 / 3 - hue"
    define p where "p = R * z"
    have v: "hls_v m1' m2' x'
        = double (m1' + double (double (dl * double (TWO_THIRD - hue)) * 6))"
      using fall by (simp add: hls_v_def Let_def hue_def dl_def)
    have zr: "\<bar>z\<bar> \<le> 1" unfolding z_def using fall(2,3) thirds(3) eta_bounds by argo
    have z': "\<bar>double (TWO_THIRD - hue) - z\<bar> \<le> eta + eta"
      by (rule near_double; use thirds(3) zr eta_bounds in \<open>unfold z_def, argo\<close>)
    have "\<bar>dl * double (TWO_THIRD - hue) - R * z\<bar> \<le> (10485760 * eta + eta) * 2 + 1 * (eta + eta)"
      by (rule near_mult [OF dl z']; use zr z' R eta_bounds in argo)
    then have p1: "\<bar>dl * double (TWO_THIRD - hue) - p\<bar> \<le> 20971524 * eta"
      unfolding p_def by argo
    have "\<bar>R * z\<bar> \<le> 1 * 1" by (rule prod_bound; use zr R in argo)
    then have pb: "\<bar>p\<bar> \<le> 1" unfolding p_def by simp
    have t1: "\<bar>double (dl * double (TWO_THIRD - hue)) - p\<bar> \<le> 20971524 * eta + eta"
      by (rule near_double; use p1 pb eta_bounds in argo)
    have t2: "\<bar>double (double (dl * double (TWO_THIRD - hue)) * 6) - 6 * p\<bar>
        \<le> 125829150 * eta + eta"
      by (rule near_double; use t1 pb eta_bounds in argo)
    have t3: "\<bar>double (m1' + double (double (dl * double (TWO_THIRD - hue)) * 6))
        - (m1 + 6 * p)\<bar> \<le> 131072031 * eta + eta"
      by (rule near_double; use t2 m1 m1r pb eta_bounds in argo)
    have "\<bar>6 * z - w\<bar> \<le> 25165830 * eta"
      unfolding z_def using br(3) [OF fall(2,3)] ww by argo
    from small [OF this] have "\<bar>6 * p - q\<bar> \<le> 25165830 * eta"
      by (simp add: p_def q_def algebra_simps)
    with t3 show ?thesis unfolding v using eta_bounds by argo
  next
    case bottom
    have v: "hls_v m1' m2' x' = m1'"
      using bottom by (simp add: hls_v_def Let_def hue_def)
    have "\<bar>w\<bar> \<le> 25165830 * eta" using br(4) [OF bottom(3)] ww by argo
    from small [OF this] have "\<bar>q\<bar> \<le> 25165830 * eta" by (simp add: q_def)
    with m1 show ?thesis unfolding v using eta_bounds by argo
  qed
  then show ?thesis by (simp add: q_def w_def)
qed

lemma hls_to_rgb_near:
  assumes s0: "s' \<noteq> 0"
    and L: "\<bar>L' - L\<bar> \<le> 4 * eta" "0 \<le> L" "L \<le> 1"
    and S: "\<bar>s' - S\<bar> \<le> 1048576 * eta" "0 \<le> S" "S \<le> 1"
    and low: "L' \<le> 1 / 2 \<Longrightarrow> \<bar>S * L - Q\<bar> \<le> 8 * eta"
    and high: "\<not> L' \<le> 1 / 2 \<Longrightarrow> \<bar>S * (1 - L) - Q\<bar> \<le> 8 * eta"
    and Q: "0 \<le> Q" "Q \<le> 1 / 2" "0 \<le> L - Q" "L - Q \<le> 1"
    and h: "\<bar>h' - (X + of_int k)\<bar> \<le> 2097152 * eta" "- 1 \<le> h'" "h' \<le> 2"
  shows "\<exists>v1 v2 v3. hls_to_rgb h' L' s' = (v1, v2, v3)
     \<and> \<bar>v1 - (L - Q + 2 * Q * wave (X + 1 / 3))\<bar> \<le> 209715200 * eta
     \<and> \<bar>v2 - (L - Q + 2 * Q * wave X)\<bar> \<le> 209715200 * eta
     \<and> \<bar>v3 - (L - Q + 2 * Q * wave (X - 1 / 3))\<bar> \<le> 209715200 * eta"
proof -
  define m2' where "m2' = (if L' \<le> 1 / 2 then double (L' * double (1 + s'))
     else double (double (L' + s') - double (L' * s')))"
  define m1' where "m1' = double (double (2 * L') - m2')"
  define sl where "sl = S * L"
  have "\<bar>S * L\<bar> \<le> 1 * 1" by (rule prod_bound; use S L in argo)
  then have slb: "\<bar>sl\<bar> \<le> 1" unfolding sl_def by simp
  have m2: "\<bar>m2' - (L + Q)\<bar> \<le> 3145728 * eta"
  proof (cases "L' \<le> 1 / 2")
    case True
    have e: "m2' = double (L' * double (1 + s'))" using True by (simp add: m2'_def)
    have y: "\<bar>double (1 + s') - (1 + S)\<bar> \<le> 1048576 * eta + eta"
      by (rule near_double; use S eta_bounds in argo)
    have "\<bar>L' * double (1 + s') - L * (1 + S)\<bar> \<le> 4 * eta * 3 + 1 * (1048576 * eta + eta)"
      by (rule near_mult [OF L(1) y]; use L S y eta_bounds in argo)
    moreover have "L * (1 + S) = L + sl" by (simp add: sl_def algebra_simps)
    ultimately have p: "\<bar>L' * double (1 + s') - (L + sl)\<bar> \<le> 1048589 * eta" by argo
    have "\<bar>double (L' * double (1 + s')) - (L + sl)\<bar> \<le> 1048589 * eta + eta"
      by (rule near_double; use p L slb eta_bounds in argo)
    with low [OF True] show ?thesis unfolding e sl_def [symmetric] using eta_bounds by argo
  next
    case False
    have e: "m2' = double (double (L' + s') - double (L' * s'))"
      using False by (simp add: m2'_def)
    have a: "\<bar>double (L' + s') - (L + S)\<bar> \<le> 1048580 * eta + eta"
      by (rule near_double; use L S eta_bounds in argo)
    have "\<bar>L' * s' - L * S\<bar> \<le> 4 * eta * 2 + 1 * (1048576 * eta)"
      by (rule near_mult [OF L(1) S(1)]; use L S eta_bounds in argo)
    moreover have "L * S = sl" by (simp add: sl_def)
    ultimately have p: "\<bar>L' * s' - sl\<bar> \<le> 1048584 * eta" by argo
    have b: "\<bar>double (L' * s') - sl\<bar> \<le> 1048584 * eta + eta"
      by (rule near_double; use p slb eta_bounds in argo)
    have c: "\<bar>double (double (L' + s') - double (L' * s')) - (L + S - sl)\<bar>
        \<le> 2097166 * eta + eta"
      by (rule near_double; use a b L S slb eta_bounds in argo)
    have "S * (1 - L) = S - sl" by (simp add: sl_def algebra_simps)
    with high [OF False] have "\<bar>S - sl - Q\<bar> \<le> 8 * eta" by simp
    with c show ?thesis unfolding e using eta_bounds by argo
  qed
  have d: "\<bar>double (2 * L') - 2 * L\<bar> \<le> 8 * eta + eta"
    by (rule near_double; use L eta_bounds in argo)
  have m1: "\<bar>m1' - (L - Q)\<bar> \<le> 3145737 * eta + eta"
    unfolding m1'_def by (rule near_double; use d m2 L Q eta_bounds in argo)
  have m1a: "\<bar>m1' - (L - Q)\<bar> \<le> 5242880 * eta" using m1 eta_bounds by argo
  have m2a: "\<bar>m2' - (L - Q + 2 * Q)\<bar> \<le> 5242880 * eta" using m2 eta_bounds by argo
  have R: "0 \<le> 2 * Q" "2 * Q \<le> 1" using Q by argo+
  have x1: "\<bar>double (h' + ONE_THIRD) - (X + 1 / 3 + of_int k)\<bar> \<le> 2097153 * eta + eta"
    by (rule near_double; use h thirds(1) eta_bounds in argo)
  have x3: "\<bar>double (h' - ONE_THIRD) - (X - 1 / 3 + of_int k)\<bar> \<le> 2097153 * eta + eta"
    by (rule near_double; use h thirds(1) eta_bounds in argo)
  have x1a: "\<bar>double (h' + ONE_THIRD) - (X + 1 / 3 + of_int k)\<bar> \<le> 3145728 * eta"
    using x1 eta_bounds by argo
  have x2a: "\<bar>h' - (X + of_int k)\<bar> \<le> 3145728 * eta"
    using h(1) eta_bounds by argo
  have x3a: "\<bar>double (h' - ONE_THIRD) - (X - 1 / 3 + of_int k)\<bar> \<le> 3145728 * eta"
    using x3 eta_bounds by argo
  have "hls_to_rgb h' L' s'
      = (hls_v m1' m2' (double (h' + ONE_THIRD)), hls_v m1' m2' h',
         hls_v m1' m2' (double (h' - ONE_THIRD)))"
    using s0 by (simp add: hls_to_rgb_def Let_def m1'_def m2'_def)
  with hls_v_near [OF m1a m2a R Q(3,4) x1a] hls_v_near [OF m1a m2a R Q(3,4) x2a]
    hls_v_near [OF m1a m2a R Q(3,4) x3a]
  show ?thesis by blast
qed

subsection \<open>One derivation\<close>

lemma to_byte_near:
  assumes "\<bar>v - of_int t / 255\<bar> \<le> 209715200 * eta" and "0 \<le> t" and "t \<le> 255"
  shows "trunc_of t (py_int (double (v * 255)))"
proof -
  define x where "x = double (v * 255)"
  have t: "0 \<le> (of_int t :: real)" "(of_int t :: real) \<le> 255" using assms(2,3) by simp_all
  have "\<bar>x - of_int t\<bar> \<le> 53477376000 * eta + eta"
    unfolding x_def by (rule near_double; use assms(1) t eta_bounds in argo)
  then have x: "of_int t - 1 < x" "x < of_int t + 1" using eta_bounds by argo+
  show ?thesis
  proof (cases "0 \<le> x")
    case True
    have "t - 1 \<le> \<lfloor>x\<rfloor>" "\<lfloor>x\<rfloor> \<le> t" "0 \<le> \<lfloor>x\<rfloor>"
      using x True by (simp_all add: le_floor_iff floor_le_iff)
    then show ?thesis
      unfolding trunc_of_def py_int_def x_def [symmetric] using True by auto
  next
    case False
    with x(1) have "of_int t < (1 :: real)" by linarith
    then have t0: "t = 0" using assms(2) by simp
    have "\<lceil>x\<rceil> = 0" using x(1) False unfolding t0 by (intro ceiling_unique) simp_all
    then show ?thesis
      unfolding trunc_of_def py_int_def x_def [symmetric] using False t0 by simp
  qed
qed

lemma invert_grey:
  assumes "0 \<le> c" and "c \<le> 255"
  shows "\<exists>d. invert_hls_channel 0 (c, c, c) = Inr (d, d, d) \<and> trunc_of c d"
    and "\<exists>d. invert_hls_channel 1 (c, c, c) = Inr (d, d, d) \<and> trunc_of (255 - c) d"
    and "\<exists>d. invert_hls_channel ch (c, c, c) = Inr d"
proof -
  from rgb_to_hls_grey [OF assms] obtain l where
    run: "rgb_to_hls (double (of_int c / 255)) (double (of_int c / 255))
        (double (of_int c / 255)) = Inr (0, l, 0)"
    and l: "\<bar>l - of_int c / 255\<bar> \<le> 3 * eta"
    by blast
  have c: "0 \<le> (of_int c :: real)" "(of_int c :: real) \<le> 255" using assms by simp_all
  have "\<bar>l - of_int c / 255\<bar> \<le> 209715200 * eta" using l eta_bounds by argo
  from to_byte_near [OF this assms]
  show "\<exists>d. invert_hls_channel 0 (c, c, c) = Inr (d, d, d) \<and> trunc_of c d"
    by (simp add: invert_hls_channel_def run and_then_def Let_def hls_to_rgb_def)
  have "\<bar>double (1 - l) - (1 - of_int c / 255)\<bar> \<le> 3 * eta + eta"
    by (rule near_double; use l c eta_bounds in argo)
  then have "\<bar>double (1 - l) - of_int (255 - c) / 255\<bar> \<le> 209715200 * eta"
    using eta_bounds by simp argo
  from to_byte_near [OF this] assms
  show "\<exists>d. invert_hls_channel 1 (c, c, c) = Inr (d, d, d) \<and> trunc_of (255 - c) d"
    by (simp add: invert_hls_channel_def run and_then_def Let_def hls_to_rgb_def)
  show "\<exists>d. invert_hls_channel ch (c, c, c) = Inr d"
    by (simp add: invert_hls_channel_def run and_then_def Let_def split: prod.splits)
qed

lemma invert_coloured:
  fixes c0 c1 c2 :: int
  assumes range: "0 \<le> c0" "c0 \<le> 255" "0 \<le> c1" "c1 \<le> 255" "0 \<le> c2" "c2 \<le> 255"
    and coloured: "min (min c0 c1) c2 < max (max c0 c1) c2"
  defines "k \<equiv> 255 - max (max c0 c1) c2 - min (min c0 c1) c2"
  shows "\<exists>d0 d1 d2. invert_hls_channel 0 (c0, c1, c2) = Inr (d0, d1, d2)
       \<and> trunc_of c0 d0 \<and> trunc_of c2 d1 \<and> trunc_of c1 d2"
    and "\<exists>d0 d1 d2. invert_hls_channel 1 (c0, c1, c2) = Inr (d0, d1, d2)
       \<and> trunc_of (c0 + k) d0 \<and> trunc_of (c1 + k) d1 \<and> trunc_of (c2 + k) d2"
    and "\<exists>d. invert_hls_channel ch (c0, c1, c2) = Inr d"
proof -
  define Mi where "Mi = max (max c0 c1) c2"
  define mi where "mi = min (min c0 c1) c2"
  define M :: real where "M = of_int (max (max c0 c1) c2) / 255"
  define m :: real where "m = of_int (min (min c0 c1) c2) / 255"
  define r :: real where "r = of_int c0 / 255"
  define g :: real where "g = of_int c1 / 255"
  define b :: real where "b = of_int c2 / 255"
  define R where "R = M - m"
  define rc where "rc = (M - of_int c0 / 255) / (M - m)"
  define gc where "gc = (M - of_int c1 / 255) / (M - m)"
  define bc where "bc = (M - of_int c2 / 255) / (M - m)"
  define u where "u = sextant rc gc bc"
  define L0 where "L0 = (M + m) / 2"
  from rgb_to_hls_near [OF range coloured] obtain h l s and j :: int where
    run: "rgb_to_hls (double (of_int c0 / 255)) (double (of_int c1 / 255))
        (double (of_int c2 / 255)) = Inr (h, l, s)"
    and l: "\<bar>l - L0\<bar> \<le> 3 * eta"
    and s: "\<bar>s - R / (if l \<le> 1 / 2 then M + m else 2 - M - m)\<bar> \<le> 1048576 * eta"
    and hj: "\<bar>h - (u + of_int j)\<bar> \<le> 1048576 * eta"
    and hr: "- eta \<le> h" "h \<le> 1 + eta"
    unfolding M_def m_def rc_def gc_def bc_def u_def R_def L0_def by blast
  show "\<exists>d. invert_hls_channel ch (c0, c1, c2) = Inr d"
    by (simp add: invert_hls_channel_def run and_then_def Let_def split: prod.splits)
  have ints: "0 \<le> mi" "mi < Mi" "Mi \<le> 255"
    and within: "mi \<le> c0" "c0 \<le> Mi" "mi \<le> c1" "c1 \<le> Mi" "mi \<le> c2" "c2 \<le> Mi"
    and extreme: "c0 = Mi \<or> c1 = Mi \<or> c2 = Mi" "c0 = mi \<or> c1 = mi \<or> c2 = mi"
    using range coloured unfolding Mi_def mi_def by (auto simp: max_def min_def)
  have Mm: "M = of_int Mi / 255" "m = of_int mi / 255"
    by (simp_all add: M_def m_def Mi_def mi_def)
  have exact: "0 \<le> m" "M \<le> 1" "m + 1 / 255 \<le> M" "R = M - m"
    "m \<le> r" "r \<le> M" "m \<le> g" "g \<le> M" "m \<le> b" "b \<le> M"
    using ints within unfolding Mm r_def g_def b_def R_def by simp_all
  have ext: "r = M \<or> g = M \<or> b = M" "r = m \<or> g = m \<or> b = m"
    using extreme unfolding Mm r_def g_def b_def by auto
  have Rpos: "0 < R" using exact by argo
  have comp: "rc = (M - r) / R" "gc = (M - g) / R" "bc = (M - b) / R"
    by (simp_all add: rc_def gc_def bc_def r_def g_def b_def R_def)
  have unit: "0 \<le> rc" "rc \<le> 1" "0 \<le> gc" "gc \<le> 1" "0 \<le> bc" "bc \<le> 1"
    unfolding comp using exact Rpos by (simp_all add: divide_le_eq)
  have c0: "rc = 0 \<or> gc = 0 \<or> bc = 0"
    unfolding comp using ext(1) Rpos by auto
  have c1: "rc = 1 \<or> gc = 1 \<or> bc = 1"
    unfolding comp using ext(2) Rpos exact(4) by auto
  have prods: "R * rc = M - r" "R * gc = M - g" "R * bc = M - b"
    unfolding comp using Rpos by simp_all
  note w = wave_hue [OF unit c0 c1, folded sextant_def, folded u_def]
  have ws: "wave (u + 1 / 3) = 1 - rc" "wave u = 1 - gc" "wave (u - 1 / 3) = 1 - bc"
    "wave (- u + 1 / 3) = 1 - rc" "wave (- u) = 1 - bc" "wave (- u - 1 / 3) = 1 - gc"
    using w by blast+
  have tgt: "L - R / 2 + 2 * (R / 2) * (1 - x) = L + R / 2 - R * x" for L x :: real
    by (simp add: algebra_simps)
  define D where "D = (if l \<le> 1 / 2 then M + m else 2 - M - m)"
  define S where "S = R / D"
  have D: "1 / 255 \<le> D" "R \<le> D" "D \<le> 2"
    unfolding D_def using exact by (auto; argo)+
  have Dpos: "0 < D" using D(1) by argo
  have S: "0 \<le> S" "S \<le> 1" "R / 2 \<le> S"
  proof -
    show "0 \<le> S" "S \<le> 1"
      unfolding S_def using D Dpos Rpos by (simp_all add: divide_le_eq)
    show "R / 2 \<le> S"
      unfolding S_def using D Dpos Rpos by (intro divide_left_mono) simp_all
  qed
  have s': "\<bar>s - S\<bar> \<le> 1048576 * eta" using s by (simp add: S_def D_def)
  have s0: "s \<noteq> 0" using s' S(3) exact eta_bounds by argo
  have L0: "0 \<le> L0" "L0 \<le> 1" unfolding L0_def using exact by argo+
  have Q: "0 \<le> R / 2" "R / 2 \<le> 1 / 2" using exact by argo+
  have lowS: "S * L0 = R / 2" if "l \<le> 1 / 2"
  proof -
    have "D = M + m" using that by (simp add: D_def)
    then have e: "L0 = D / 2" by (simp add: L0_def)
    show ?thesis unfolding e S_def using Dpos by simp
  qed
  have highS: "S * (1 - L0) = R / 2" if "\<not> l \<le> 1 / 2"
  proof -
    have "D = 2 - M - m" using that by (simp add: D_def)
    then have e: "1 - L0 = D / 2" unfolding L0_def by argo
    show ?thesis unfolding e S_def using Dpos by simp
  qed
  show "\<exists>d0 d1 d2. invert_hls_channel 0 (c0, c1, c2) = Inr (d0, d1, d2)
       \<and> trunc_of c0 d0 \<and> trunc_of c2 d1 \<and> trunc_of c1 d2"
  proof -
    define h' where "h' = double (1 - h)"
    have cj: "(of_int (1 - j) :: real) = 1 - of_int j" by simp
    have "\<bar>h' - (- u + of_int (1 - j))\<bar> \<le> 1048576 * eta + eta"
      unfolding h'_def cj by (rule near_double; use hj hr eta_bounds in argo)
    then have h1: "\<bar>h' - (- u + of_int (1 - j))\<bar> \<le> 2097152 * eta"
      using eta_bounds by argo
    have h2: "- 1 \<le> h'" "h' \<le> 2"
      using h1 hj hr eta_bounds unfolding cj by argo+
    have l4: "\<bar>l - L0\<bar> \<le> 4 * eta" using l eta_bounds by argo
    have low: "\<bar>S * L0 - R / 2\<bar> \<le> 8 * eta" if "l \<le> 1 / 2"
      using lowS [OF that] eta_bounds by simp
    have high: "\<bar>S * (1 - L0) - R / 2\<bar> \<le> 8 * eta" if "\<not> l \<le> 1 / 2"
      using highS [OF that] eta_bounds by simp
    have m1: "0 \<le> L0 - R / 2" "L0 - R / 2 \<le> 1"
      unfolding L0_def using exact by argo+
    from hls_to_rgb_near [OF s0 l4 L0 s' S(1,2) low high Q m1 h1 h2]
    obtain v1 v2 v3 where
      v: "hls_to_rgb h' l s = (v1, v2, v3)"
      and v1: "\<bar>v1 - (L0 - R / 2 + 2 * (R / 2) * wave (- u + 1 / 3))\<bar> \<le> 209715200 * eta"
      and v2: "\<bar>v2 - (L0 - R / 2 + 2 * (R / 2) * wave (- u))\<bar> \<le> 209715200 * eta"
      and v3: "\<bar>v3 - (L0 - R / 2 + 2 * (R / 2) * wave (- u - 1 / 3))\<bar> \<le> 209715200 * eta"
      by blast
    have t: "L0 - R / 2 + 2 * (R / 2) * wave (- u + 1 / 3) = of_int c0 / 255"
      "L0 - R / 2 + 2 * (R / 2) * wave (- u) = of_int c2 / 255"
      "L0 - R / 2 + 2 * (R / 2) * wave (- u - 1 / 3) = of_int c1 / 255"
      unfolding ws tgt prods L0_def r_def g_def b_def using exact(4) by argo+
    have "invert_hls_channel 0 (c0, c1, c2)
        = Inr (py_int (double (v1 * 255)), py_int (double (v2 * 255)), py_int (double (v3 * 255)))"
      using v by (simp add: invert_hls_channel_def run and_then_def Let_def h'_def)
    with to_byte_near [OF v1 [unfolded t] range(1,2)] to_byte_near [OF v2 [unfolded t] range(5,6)]
      to_byte_near [OF v3 [unfolded t] range(3,4)]
    show ?thesis by blast
  qed
  show "\<exists>d0 d1 d2. invert_hls_channel 1 (c0, c1, c2) = Inr (d0, d1, d2)
       \<and> trunc_of (c0 + k) d0 \<and> trunc_of (c1 + k) d1 \<and> trunc_of (c2 + k) d2"
  proof -
    define l' where "l' = double (1 - l)"
    have l4: "\<bar>l' - (1 - L0)\<bar> \<le> 3 * eta + eta"
      unfolding l'_def by (rule near_double; use l L0 eta_bounds in argo)
    then have l4': "\<bar>l' - (1 - L0)\<bar> \<le> 4 * eta" by argo
    have L1: "0 \<le> 1 - L0" "1 - L0 \<le> 1" using L0 by argo+
    have low: "\<bar>S * (1 - L0) - R / 2\<bar> \<le> 8 * eta" if "l' \<le> 1 / 2"
    proof (cases "l \<le> 1 / 2")
      case True
      have "\<bar>1 - 2 * L0\<bar> \<le> 8 * eta" using that True l l4 by argo
      from scale_small [OF S(1,2) this] have "\<bar>S * (1 - 2 * L0)\<bar> \<le> 8 * eta" .
      moreover have "S * (1 - L0) - R / 2 = S * (1 - 2 * L0)"
        using lowS [OF True] by (simp add: algebra_simps)
      ultimately show ?thesis by simp
    next
      case False
      then show ?thesis using highS eta_bounds by simp
    qed
    have high: "\<bar>S * (1 - (1 - L0)) - R / 2\<bar> \<le> 8 * eta" if "\<not> l' \<le> 1 / 2"
    proof (cases "l \<le> 1 / 2")
      case True
      then show ?thesis using lowS eta_bounds by simp
    next
      case False
      have "\<bar>2 * L0 - 1\<bar> \<le> 8 * eta" using that False l l4 by argo
      from scale_small [OF S(1,2) this] have "\<bar>S * (2 * L0 - 1)\<bar> \<le> 8 * eta" .
      moreover have "S * (1 - (1 - L0)) - R / 2 = S * (2 * L0 - 1)"
        using highS [OF False] by (simp add: algebra_simps)
      ultimately show ?thesis by simp
    qed
    have m1: "0 \<le> 1 - L0 - R / 2" "1 - L0 - R / 2 \<le> 1"
      unfolding L0_def using exact by argo+
    have h1: "\<bar>h - (u + of_int j)\<bar> \<le> 2097152 * eta" using hj eta_bounds by argo
    have h2: "- 1 \<le> h" "h \<le> 2" using hr eta_bounds by argo+
    from hls_to_rgb_near [OF s0 l4' L1 s' S(1,2) low high Q m1 h1 h2]
    obtain v1 v2 v3 where
      v: "hls_to_rgb h l' s = (v1, v2, v3)"
      and v1: "\<bar>v1 - (1 - L0 - R / 2 + 2 * (R / 2) * wave (u + 1 / 3))\<bar> \<le> 209715200 * eta"
      and v2: "\<bar>v2 - (1 - L0 - R / 2 + 2 * (R / 2) * wave u)\<bar> \<le> 209715200 * eta"
      and v3: "\<bar>v3 - (1 - L0 - R / 2 + 2 * (R / 2) * wave (u - 1 / 3))\<bar> \<le> 209715200 * eta"
      by blast
    have kk: "(of_int k :: real) / 255 = 1 - M - m"
      unfolding k_def Mm Mi_def [symmetric] mi_def [symmetric] by simp
    have sum: "(of_int (c + k) :: real) / 255 = of_int c / 255 + 1 - M - m" for c
      using kk by (simp add: add_divide_distrib)
    have t: "1 - L0 - R / 2 + 2 * (R / 2) * wave (u + 1 / 3) = of_int (c0 + k) / 255"
      "1 - L0 - R / 2 + 2 * (R / 2) * wave u = of_int (c1 + k) / 255"
      "1 - L0 - R / 2 + 2 * (R / 2) * wave (u - 1 / 3) = of_int (c2 + k) / 255"
      unfolding ws tgt prods sum L0_def r_def g_def b_def using exact(4) by argo+
    have kr: "0 \<le> c0 + k" "c0 + k \<le> 255" "0 \<le> c1 + k" "c1 + k \<le> 255"
      "0 \<le> c2 + k" "c2 + k \<le> 255"
      unfolding k_def Mi_def [symmetric] mi_def [symmetric] using ints within by simp_all
    have "invert_hls_channel 1 (c0, c1, c2)
        = Inr (py_int (double (v1 * 255)), py_int (double (v2 * 255)), py_int (double (v3 * 255)))"
      using v by (simp add: invert_hls_channel_def run and_then_def Let_def l'_def)
    with to_byte_near [OF v1 [unfolded t] kr(1,2)] to_byte_near [OF v2 [unfolded t] kr(3,4)]
      to_byte_near [OF v3 [unfolded t] kr(5,6)]
    show ?thesis by blast
  qed
qed

lemma invert_hue_step:
  assumes "rgb_color (c0, c1, c2)"
  shows "\<exists>d0 d1 d2. invert_hls_channel 0 (c0, c1, c2) = Inr (d0, d1, d2)
     \<and> trunc_of c0 d0 \<and> trunc_of c2 d1 \<and> trunc_of c1 d2"
proof (cases "min (min c0 c1) c2 < max (max c0 c1) c2")
  case True
  with assms show ?thesis unfolding rgb_color_def by (intro invert_coloured(1)) simp_all
next
  case False
  then have eq: "c1 = c0" "c2 = c0" by (auto simp: max_def min_def split: if_splits)
  from assms invert_grey(1) [of c0] show ?thesis unfolding eq rgb_color_def by auto
qed

lemma invert_lightness_step:
  assumes "rgb_color (c0, c1, c2)"
  defines "k \<equiv> 255 - max (max c0 c1) c2 - min (min c0 c1) c2"
  shows "\<exists>d0 d1 d2. invert_hls_channel 1 (c0, c1, c2) = Inr (d0, d1, d2)
     \<and> trunc_of (c0 + k) d0 \<and> trunc_of (c1 + k) d1 \<and> trunc_of (c2 + k) d2"
proof (cases "min (min c0 c1) c2 < max (max c0 c1) c2")
  case True
  with assms(1) show ?thesis
    unfolding rgb_color_def k_def by (intro invert_coloured(2)) simp_all
next
  case False
  then have eq: "c1 = c0" "c2 = c0" by (auto simp: max_def min_def split: if_splits)
  have k: "c0 + k = 255 - c0" by (simp add: k_def eq)
  from assms(1) invert_grey(2) [of c0] show ?thesis unfolding eq k rgb_color_def by auto
qed

lemma invert_hls_channel_ok:
  assumes "rgb_color c"
  shows "\<exists>d. invert_hls_channel ch c = Inr d"
proof -
  obtain c0 c1 c2 where c: "c = (c0, c1, c2)" by (cases c) auto
  show ?thesis
  proof (cases "min (min c0 c1) c2 < max (max c0 c1) c2")
    case True
    with assms show ?thesis unfolding c rgb_color_def by (intro invert_coloured(3)) simp_all
  next
    case False
    then have eq: "c1 = c0" "c2 = c0" by (auto simp: max_def min_def split: if_splits)
    from assms invert_grey(3) [of c0 ch] show ?thesis unfolding c eq rgb_color_def by auto
  qed
qed

lemma hue_twice:
  assumes "rgb_color c"
  shows "\<exists>d e. invert_hls_channel 0 c = Inr d \<and> invert_hls_channel 0 d = Inr e \<and> within_tolerance 2 c e"
proof -
  obtain c0 c1 c2 where c: "c = (c0, c1, c2)" by (cases c) auto
  from invert_hue_step [OF assms [unfolded c]] obtain d0 d1 d2 where
    d: "invert_hls_channel 0 (c0, c1, c2) = Inr (d0, d1, d2)"
      "trunc_of c0 d0" "trunc_of c2 d1" "trunc_of c1 d2"
    by blast
  have "rgb_color (d0, d1, d2)"
    using assms d(2-4) unfolding c rgb_color_def trunc_of_def by auto
  from invert_hue_step [OF this] obtain e0 e1 e2 where
    e: "invert_hls_channel 0 (d0, d1, d2) = Inr (e0, e1, e2)"
      "trunc_of d0 e0" "trunc_of d2 e1" "trunc_of d1 e2"
    by blast
  have "within_tolerance 2 (c0, c1, c2) (e0, e1, e2)"
    using d(2-4) e(2-4) unfolding within_tolerance_def trunc_of_def by auto
  with d(1) e(1) show ?thesis unfolding c by blast
qed

lemma lightness_twice:
  assumes "rgb_color c"
  shows "\<exists>d e. invert_hls_channel 1 c = Inr d \<and> invert_hls_channel 1 d = Inr e \<and> within_tolerance 2 c e"
proof -
  obtain c0 c1 c2 where c: "c = (c0, c1, c2)" by (cases c) auto
  define Mi where "Mi = max (max c0 c1) c2"
  define mi where "mi = min (min c0 c1) c2"
  define k where "k = 255 - Mi - mi"
  from invert_lightness_step [OF assms [unfolded c]] obtain d0 d1 d2 where
    d: "invert_hls_channel 1 (c0, c1, c2) = Inr (d0, d1, d2)"
      "trunc_of (c0 + k) d0" "trunc_of (c1 + k) d1" "trunc_of (c2 + k) d2"
    unfolding k_def Mi_def mi_def by blast
  have range: "0 \<le> mi" "mi \<le> c0" "mi \<le> c1" "mi \<le> c2" "c0 \<le> Mi" "c1 \<le> Mi" "c2 \<le> Mi"
    "Mi \<le> 255"
    using assms unfolding c rgb_color_def Mi_def mi_def by auto
  have dr: "rgb_color (d0, d1, d2)"
    using range d(2-4) unfolding rgb_color_def trunc_of_def k_def by auto
  define Ni where "Ni = max (max d0 d1) d2"
  define ni where "ni = min (min d0 d1) d2"
  define k' where "k' = 255 - Ni - ni"
  from invert_lightness_step [OF dr] obtain e0 e1 e2 where
    e: "invert_hls_channel 1 (d0, d1, d2) = Inr (e0, e1, e2)"
      "trunc_of (d0 + k') e0" "trunc_of (d1 + k') e1" "trunc_of (d2 + k') e2"
    unfolding k'_def Ni_def ni_def by blast
  have near: "c0 + k - 1 \<le> d0" "d0 \<le> c0 + k" "c1 + k - 1 \<le> d1" "d1 \<le> c1 + k"
    "c2 + k - 1 \<le> d2" "d2 \<le> c2 + k"
    using d(2-4) unfolding trunc_of_def by auto
  have "Mi + k - 1 \<le> Ni" "Ni \<le> Mi + k" "mi + k - 1 \<le> ni" "ni \<le> mi + k"
    using near unfolding Ni_def ni_def Mi_def mi_def by linarith+
  then have k': "- k \<le> k'" "k' \<le> - k + 2"
    unfolding k'_def k_def by linarith+
  have "within_tolerance 2 (c0, c1, c2) (e0, e1, e2)"
    using near k' e(2-4) unfolding within_tolerance_def trunc_of_def by auto
  with d(1) e(1) show ?thesis unfolding c by blast
qed

section \<open>Running the drawing functions of the flower\<close>

lemma length_7_obtain:
  assumes "length xs = 7"
  obtains a b c d e f g where "xs = [a, b, c, d, e, f, g]"
  using assms by (auto simp: length_Suc_conv eval_nat_numeral)

lemma all_some_obtain:
  assumes "extra_ready s"
  obtains a0 a1 a2 a3 a4 a5 a6 a7 a8 a9 a10 a11
  where "extra_ring s = [Some a0, Some a1, Some a2, Some a3, Some a4, Some a5, Some a6,
     Some a7, Some a8, Some a9, Some a10, Some a11]"
proof -
  from assms obtain b0 b1 b2 b3 b4 b5 b6 b7 b8 b9 b10 b11
    where er: "extra_ring s = [b0, b1, b2, b3, b4, b5, b6, b7, b8, b9, b10, b11]"
    unfolding extra_ready_def by (elim conjE length_12_obtain)
  with assms show ?thesis
    unfolding extra_ready_def by (auto intro: that)
qed

lemma draw_colored_flower_run:
  assumes "ring_center s = [b0, b1, b2, b3, b4, b5]"
    and "extra_ring s = [a0, a1, a2, a3, a4, a5, a6, a7, a8, a9, a10, a11]"
    and "ring_colors s = [c0, c1, c2, c3, c4, c5, c6]"
  shows "\<exists>s'. draw_colored_flower s = Inr s'
     \<and> same_globals s s'
     \<and> plain (new_calls s s')
     \<and> foregrounds (new_calls s s')
         = ring_fills (ring_colors s) @ (if frame_width s \<noteq> 0 then [frame_color s] else [])
     \<and> lists_ready s' \<and> extra_ready s'"
  using assms
  by (simp add: draw_colored_flower_def ring_defs same_globals_def new_calls_def
      replicate_numerals ring_fills_def lists_ready_def extra_ready_def)

lemma draw_black_and_white_run:
  assumes "ring_center s = [b0, b1, b2, b3, b4, b5]"
    and "extra_ring s = [a0, a1, a2, a3, a4, a5, a6, a7, a8, a9, a10, a11]"
  shows "\<exists>s'. draw_black_and_white s = Inr s'
     \<and> same_globals s s'
     \<and> plain (new_calls s s')
     \<and> lists_ready s' \<and> extra_ready s'"
  using assms
  by (simp add: draw_black_and_white_def ring_defs same_globals_def new_calls_def
      lists_ready_def extra_ready_def)

lemma create_bw_alpha_run:
  assumes "extra_ring s = [Some a0, Some a1, Some a2, Some a3, Some a4, Some a5, Some a6,
     Some a7, Some a8, Some a9, Some a10, Some a11]"
  shows "\<exists>s'. create_bw_alpha s = Inr s'
     \<and> same_globals s s'
     \<and> plain (new_calls s s')"
proof (cases "flower_type s = PETALS")
  case True
  then have "flower_type s \<noteq> LINES" by (simp add: PETALS_def LINES_def)
  with True assms show ?thesis
    by (simp add: create_bw_alpha_def py_range_12 Let_def same_globals_def new_calls_def
        make_new_layer_def fill_layer_def fill_circle_def draw_circle_selection_def
        draw_frame_emit)
next
  case False
  with assms show ?thesis
    by (cases "flower_type s = LINES")
      (simp_all add: create_bw_alpha_def py_range_12 Let_def same_globals_def new_calls_def
        make_new_layer_def fill_layer_def fill_circle_def draw_circle_selection_def
        draw_frame_emit)
qed

lemma colored_state:
  assumes "lists_ready s" and "length (ring_colors s) = 7"
  shows "draw_colored_flower s = Inr (colored_state s)"
    and "same_globals s (colored_state s)"
    and "plain (new_calls s (colored_state s))"
    and "foregrounds (new_calls s (colored_state s))
         = ring_fills (ring_colors s) @ (if frame_width s \<noteq> 0 then [frame_color s] else [])"
    and "lists_ready (colored_state s)"
    and "extra_ready (colored_state s)"
proof -
  obtain b0 b1 b2 b3 b4 b5 where rc: "ring_center s = [b0, b1, b2, b3, b4, b5]"
    using assms(1) unfolding lists_ready_def by (elim conjE length_6_obtain)
  obtain a0 a1 a2 a3 a4 a5 a6 a7 a8 a9 a10 a11
    where er: "extra_ring s = [a0, a1, a2, a3, a4, a5, a6, a7, a8, a9, a10, a11]"
    using assms(1) unfolding lists_ready_def by (elim conjE length_12_obtain)
  obtain c0 c1 c2 c3 c4 c5 c6 where cl: "ring_colors s = [c0, c1, c2, c3, c4, c5, c6]"
    using assms(2) by (rule length_7_obtain)
  from draw_colored_flower_run [OF rc er cl] obtain s' where
    s': "draw_colored_flower s = Inr s'" "same_globals s s'" "plain (new_calls s s')"
      "foregrounds (new_calls s s')
         = ring_fills (ring_colors s) @ (if frame_width s \<noteq> 0 then [frame_color s] else [])"
      "lists_ready s'" "extra_ready s'"
    by blast
  then have eq: "colored_state s = s'" by (simp add: colored_state_def)
  show "draw_colored_flower s = Inr (colored_state s)"
    and "same_globals s (colored_state s)"
    and "plain (new_calls s (colored_state s))"
    and "foregrounds (new_calls s (colored_state s))
         = ring_fills (ring_colors s) @ (if frame_width s \<noteq> 0 then [frame_color s] else [])"
    and "lists_ready (colored_state s)"
    and "extra_ready (colored_state s)"
    unfolding eq by (fact s')+
qed

lemma bw_state:
  assumes "lists_ready s"
  shows "draw_black_and_white s = Inr (bw_state s)"
    and "same_globals s (bw_state s)"
    and "plain (new_calls s (bw_state s))"
    and "lists_ready (bw_state s)"
    and "extra_ready (bw_state s)"
proof -
  obtain b0 b1 b2 b3 b4 b5 where rc: "ring_center s = [b0, b1, b2, b3, b4, b5]"
    using assms(1) unfolding lists_ready_def by (elim conjE length_6_obtain)
  obtain a0 a1 a2 a3 a4 a5 a6 a7 a8 a9 a10 a11
    where er: "extra_ring s = [a0, a1, a2, a3, a4, a5, a6, a7, a8, a9, a10, a11]"
    using assms(1) unfolding lists_ready_def by (elim conjE length_12_obtain)
  from draw_black_and_white_run [OF rc er] obtain s' where
    s': "draw_black_and_white s = Inr s'" "same_globals s s'" "plain (new_calls s s')"
      "lists_ready s'" "extra_ready s'"
    by blast
  then have eq: "bw_state s = s'" by (simp add: bw_state_def)
  show "draw_black_and_white s = Inr (bw_state s)"
    and "same_globals s (bw_state s)"
    and "plain (new_calls s (bw_state s))"
    and "lists_ready (bw_state s)"
    and "extra_ready (bw_state s)"
    unfolding eq by (fact s')+
qed

lemma alpha_state:
  assumes "extra_ready s"
  shows "create_bw_alpha s = Inr (alpha_state s)"
    and "same_globals s (alpha_state s)"
    and "plain (new_calls s (alpha_state s))"
proof -
  obtain a0 a1 a2 a3 a4 a5 a6 a7 a8 a9 a10 a11
    where er: "extra_ring s = [Some a0, Some a1, Some a2, Some a3, Some a4, Some a5, Some a6,
     Some a7, Some a8, Some a9, Some a10, Some a11]"
    using assms by (rule all_some_obtain)
  from create_bw_alpha_run [OF er] obtain s' where
    s': "create_bw_alpha s = Inr s'" "same_globals s s'" "plain (new_calls s s')"
    by blast
  then have eq: "alpha_state s = s'" by (simp add: alpha_state_def)
  show "create_bw_alpha s = Inr (alpha_state s)"
    and "same_globals s (alpha_state s)"
    and "plain (new_calls s (alpha_state s))"
    unfolding eq by (fact s')+
qed



lemma plain_count [simp]:
  "plain cs \<Longrightarrow> count_list cs gimp_image_undo_group_start = 0"
  "plain cs \<Longrightarrow> count_list cs gimp_image_undo_group_end = 0"
  by (simp_all add: plain_def)

lemma plain_dropWhile [simp]:
  "plain cs \<Longrightarrow> dropWhile (\<lambda>c. c \<noteq> gimp_image_undo_group_end) (cs @ ds)
     = dropWhile (\<lambda>c. c \<noteq> gimp_image_undo_group_end) ds"
  by (simp add: plain_def dropWhile_append)

lemma state_fields:
  assumes "same_globals s s'"
  shows "image_size s' = image_size s" "image_center s' = image_center s"
    "image_focus s' = image_focus s" "circle_diameter s' = circle_diameter s"
    "circle_radius s' = circle_radius s" "frame_width s' = frame_width s"
    "flower_radius s' = flower_radius s" "flower_type s' = flower_type s"
    "line_width s' = line_width s" "ring_colors s' = ring_colors s"
    "frame_color s' = frame_color s" "color_mode s' = color_mode s"
    "rng_calls s' = rng_calls s"
    "trace s' = trace s @ new_calls s s'"
proof -
  have "take (length (trace s)) (trace s') = trace s"
    using assms by (simp add: same_globals_def)
  then show "trace s' = trace s @ new_calls s s'"
    unfolding new_calls_def by (metis append_take_drop_id)
qed (use assms in \<open>simp_all add: same_globals_def\<close>)

lemmas colored_fields [simp] = state_fields [OF colored_state(2)]
lemmas bw_fields [simp] = state_fields [OF bw_state(2)]
lemmas alpha_fields [simp] = state_fields [OF alpha_state(2)]

lemma ready_emit [simp]:
  "lists_ready (emit cs s) = lists_ready s"
  "extra_ready (emit cs s) = extra_ready s"
  by (simp_all add: lists_ready_def extra_ready_def)

lemma ready_init [simp]: "lists_ready (init_globals a m p cs lw fw fc)"
  by (simp add: lists_ready_def)

lemma py_int_div7: "0 \<le> n \<Longrightarrow> py_int (of_int n / 7) = n div 7"
proof -
  assume "0 \<le> n"
  then have "0 \<le> (of_int n / 7 :: real)" by simp
  then have "py_int (of_int n / 7) = \<lfloor>(of_int n :: real) / of_int 7\<rfloor>"
    by (simp add: py_int_def)
  also have "\<dots> = n div 7" by (rule floor_divide_of_int_eq)
  finally show ?thesis .
qed

lemma random_colors_run:
  assumes "ring_colors s = [c0, c1, c2, c3, c4, c5, c6]"
  shows "\<exists>s'. and_then (random_ring_colors rnd s) average_frame_color = Inr s'
     \<and> ring_colors s' = random_colors rnd (rng_calls s)
     \<and> frame_color s'
         = (sum_list (map fst (ring_colors s')) div 7,
            sum_list (map (\<lambda>c. fst (snd c)) (ring_colors s')) div 7,
            sum_list (map (\<lambda>c. snd (snd c)) (ring_colors s')) div 7)
     \<and> trace s' = trace s \<and> lists_ready s' = lists_ready s
     \<and> flower_type s' = flower_type s \<and> frame_width s' = frame_width s
     \<and> image_size s' = image_size s \<and> image_center s' = image_center s
     \<and> flower_radius s' = flower_radius s"
  using assms
  by (simp add: random_ring_colors_def average_frame_color_def py_range_7 py_range_3
      RING_COLORS_COUNT_def randint_def set_component_def Let_def random_colors_def
      py_range_7 [unfolded py_range_def] lists_ready_def case_prod_beta)
    (simp add: eval_nat_numeral add.assoc)


lemma random_state:
  assumes "length (ring_colors s) = 7"
  shows "and_then (random_ring_colors rnd s) average_frame_color = Inr (random_state rnd s)"
    and "ring_colors (random_state rnd s) = random_colors rnd (rng_calls s)"
    and "frame_color (random_state rnd s)
         = (sum_list (map fst (random_colors rnd (rng_calls s))) div 7,
            sum_list (map (\<lambda>c. fst (snd c)) (random_colors rnd (rng_calls s))) div 7,
            sum_list (map (\<lambda>c. snd (snd c)) (random_colors rnd (rng_calls s))) div 7)"
    and "trace (random_state rnd s) = trace s"
    and "lists_ready (random_state rnd s) = lists_ready s"
    and "flower_type (random_state rnd s) = flower_type s"
    and "frame_width (random_state rnd s) = frame_width s"
    and "image_size (random_state rnd s) = image_size s"
    and "image_center (random_state rnd s) = image_center s"
    and "flower_radius (random_state rnd s) = flower_radius s"
proof -
  obtain c0 c1 c2 c3 c4 c5 c6 where cl: "ring_colors s = [c0, c1, c2, c3, c4, c5, c6]"
    using assms by (rule length_7_obtain)
  from random_colors_run [OF cl, of rnd] obtain s' where
    s': "and_then (random_ring_colors rnd s) average_frame_color = Inr s'"
      "ring_colors s' = random_colors rnd (rng_calls s)"
      "frame_color s'
         = (sum_list (map fst (ring_colors s')) div 7,
            sum_list (map (\<lambda>c. fst (snd c)) (ring_colors s')) div 7,
            sum_list (map (\<lambda>c. snd (snd c)) (ring_colors s')) div 7)"
      "trace s' = trace s" "lists_ready s' = lists_ready s"
      "flower_type s' = flower_type s" "frame_width s' = frame_width s"
      "image_size s' = image_size s" "image_center s' = image_center s"
      "flower_radius s' = flower_radius s"
    by blast
  then have eq: "random_state rnd s = s'" by (simp add: random_state_def)
  show "and_then (random_ring_colors rnd s) average_frame_color = Inr (random_state rnd s)"
    and "ring_colors (random_state rnd s) = random_colors rnd (rng_calls s)"
    and "frame_color (random_state rnd s)
         = (sum_list (map fst (random_colors rnd (rng_calls s))) div 7,
            sum_list (map (\<lambda>c. fst (snd c)) (random_colors rnd (rng_calls s))) div 7,
            sum_list (map (\<lambda>c. snd (snd c)) (random_colors rnd (rng_calls s))) div 7)"
    and "trace (random_state rnd s) = trace s"
    and "lists_ready (random_state rnd s) = lists_ready s"
    and "flower_type (random_state rnd s) = flower_type s"
    and "frame_width (random_state rnd s) = frame_width s"
    and "image_size (random_state rnd s) = image_size s"
    and "image_center (random_state rnd s) = image_center s"
    and "flower_radius (random_state rnd s) = flower_radius s"
    unfolding eq using s' by simp_all
qed

lemma length_random_colors [simp]: "length (random_colors rnd n) = 7"
  by (simp add: random_colors_def)

lemmas run_simps =
  colored_state(1,3,5,6) bw_state(1,3,4,5) alpha_state(1,3) random_state
  make_new_layer_def fill_layer_def draw_gradient_def info_msg_def Let_def

lemma render_flower_run:
  "\<exists>s. render_flower symbol_radius mode flower_part color1 color2 color3 color4 color5 color6
         color7 line_w frame_w frame_col rnd = Inr s
     \<and> single_undo_group (trace s)
     \<and> ring_colors s
         = (if mode = RANDOM_COLORS then random_colors rnd 0
            else [color1, color2, color3, color4, color5, color6, color7])
     \<and> frame_color s
         = (if mode = RANDOM_COLORS
            then (sum_list (map fst (random_colors rnd 0)) div 7,
                  sum_list (map (\<lambda>c. fst (snd c)) (random_colors rnd 0)) div 7,
                  sum_list (map (\<lambda>c. snd (snd c)) (random_colors rnd 0)) div 7)
            else frame_col)"
proof (cases "flower_part = LINES")
  case lines: True
  show ?thesis
  proof (cases "mode = 0")
    case True
    with lines show ?thesis
      by (simp add: render_flower_def run_simps single_undo_group_def RANDOM_COLORS_def)
  next
    case False
    with lines show ?thesis
      by (cases "mode = RANDOM_COLORS")
        (simp_all add: render_flower_def run_simps single_undo_group_def)
  qed
next
  case lines: False
  show ?thesis
  proof (cases "mode = 0")
    case True
    with lines show ?thesis
      by (simp add: render_flower_def run_simps single_undo_group_def RANDOM_COLORS_def)
  next
    case False
    with lines show ?thesis
      by (cases "mode = RANDOM_COLORS")
        (simp_all add: render_flower_def run_simps single_undo_group_def)
  qed
qed


section \<open>Running the yin-yang script\<close>


lemma set_colors_ok:
  assumes "rgb_color flow_color_1"
  shows "\<exists>c'. set_colors mode flow_color_1 flow_color_2 = Inr c'"
proof -
  obtain c0 c1 c2 where c: "flow_color_1 = (c0, c1, c2)" by (cases flow_color_1) auto
  have "\<exists>c'. invert_hls_channel ch flow_color_1 = Inr c'" for ch
    using assms by (rule invert_hls_channel_ok)
  moreover obtain d0 d1 d2 where "flow_color_2 = (d0, d1, d2)"
    by (cases flow_color_2) auto
  ultimately show ?thesis
    unfolding set_colors_def c by (cases "mode = YY_INVERTED_COLOR") auto
qed

lemma plain_frames [simp]: "plain (frames n angle rotation timer center new_size)"
  by (induction n arbitrary: angle) (simp_all add: Let_def)

lemma process_frame_count_ok:
  assumes "direction < 2"
  shows "\<exists>cs. process_frame_count frame_count direction timer center new_size = Inr cs
     \<and> plain cs"
  using assms
  by (cases "direction = 0") (auto simp: process_frame_count_def pair_index_def Let_def)

lemma draw_side_ok:
  "\<exists>cs. draw_side y flow_color gradient pattern 0 = Inr cs \<and> plain cs"
  "\<exists>cs. draw_side y flow_color gradient pattern 1 = Inr cs \<and> plain cs"
  by (simp_all add: draw_side_def Let_def draw_flow_selection_def fill_def)

lemma plain_draw_rim [simp]: "plain (draw_rim y rim_color)"
  by (simp add: draw_rim_def draw_flow_selection_def fill_def Let_def)

lemma plain_new_gradient [simp]: "plain (snd (new_gradient l r i))"
  by (simp add: new_gradient_def Let_def)

lemma single_undo_groupI:
  assumes "plain pre" "\<not> list_ex is_draw pre" "plain mid" "plain post"
    "\<not> list_ex is_draw post"
  shows "single_undo_group
    (pre @ gimp_image_undo_group_start # mid @ gimp_image_undo_group_end # post)"
proof -
  have tw: "takeWhile (\<lambda>c. c \<noteq> gimp_image_undo_group_start)
      (pre @ gimp_image_undo_group_start # mid @ gimp_image_undo_group_end # post) = pre"
    using assms(1) by (simp add: plain_def takeWhile_append)
  have dw: "dropWhile (\<lambda>c. c \<noteq> gimp_image_undo_group_end)
      (pre @ gimp_image_undo_group_start # mid @ gimp_image_undo_group_end # post)
      = gimp_image_undo_group_end # post"
    using assms(1,3) by simp
  show ?thesis
    unfolding single_undo_group_def tw dw using assms by (simp add: plain_def)
qed


lemma render_yin_yang_run:
  assumes "eye_divisor \<noteq> 0" and "direction < 2" and "rgb_color flow_color_1"
  shows "\<exists>cs. render_yin_yang symbol_diameter mode flow_color_1 flow_color_2 rim_color
       flow_pattern_1 flow_pattern_2 rim_width eye_divisor direction frame_count frame_timer
       = Inr cs \<and> single_undo_group cs"
proof -
  obtain y where y: "yy_init symbol_diameter mode rim_width eye_divisor = Inr y"
    using assms(1) by (simp add: yy_init_def Let_def)
  obtain c2 where c2: "set_colors mode flow_color_1 flow_color_2 = Inr c2"
    using set_colors_ok [OF assms(3)] by blast
  define timer where "timer = (if frame_count > 1
      then '' ('' @ str (py_int frame_timer) @ ''ms)'' else '''')"
  obtain side_1 where s1: "draw_side y flow_color_1
      (if yy_mode y = 1 then Some (fst (new_gradient flow_color_1 c2 1)) else None)
      flow_pattern_1 0 = Inr side_1" "plain side_1"
    using draw_side_ok(1) by blast
  obtain side_2 where s2: "draw_side y c2
      (if yy_mode y = 1 then Some (fst (new_gradient c2 flow_color_1 2)) else None)
      flow_pattern_2 1 = Inr side_2" "plain side_2"
    using draw_side_ok(2) by blast
  obtain anim where an: "process_frame_count frame_count direction timer (yy_center y)
      (yy_image_size y div YY_SCALE) = Inr anim" "plain anim"
    using process_frame_count_ok [OF assms(2)] by blast
  define pre where "pre = [gimp_context_push, gimp_context_set_antialias False,
     gimp_context_set_feather False, gimp_Image (yy_image_size y) (yy_image_size y),
     gimp_layer_new (yy_image_size y) (yy_image_size y) (''Base'' @ timer) LAYER_MODE_NORMAL,
     image_add_layer 0, gimp_display_new]"
  define mid where "mid =
     (if yy_mode y = 1
      then snd (new_gradient flow_color_1 c2 1) @ snd (new_gradient c2 flow_color_1 2)
      else [])
     @ side_1 @ side_2 @ draw_rim y rim_color @ [gimp_selection_none]
     @ (if direction \<noteq> 0 then [gimp_item_transform_flip_simple] else [])
     @ [gimp_image_scale_full (yy_image_size y div YY_SCALE) (yy_image_size y div YY_SCALE)]
     @ anim
     @ (if yy_mode y = 1
        then [gimp_gradient_delete (fst (new_gradient flow_color_1 c2 1)),
              gimp_gradient_delete (fst (new_gradient c2 flow_color_1 2))]
        else [])"
  have run: "render_yin_yang symbol_diameter mode flow_color_1 flow_color_2 rim_color
       flow_pattern_1 flow_pattern_2 rim_width eye_divisor direction frame_count frame_timer
       = Inr (pre @ gimp_image_undo_group_start # mid
              @ gimp_image_undo_group_end # [gimp_context_pop])"
    using y c2 s1(1) s2(1) an(1)
    by (simp add: render_yin_yang_def Let_def timer_def pre_def mid_def)
  moreover have "plain pre" "\<not> list_ex is_draw pre" by (simp_all add: pre_def)
  moreover have "plain mid" using s1(2) s2(2) an(2) by (simp add: mid_def)
  ultimately show ?thesis
    using single_undo_groupI [of pre mid "[gimp_context_pop]"] by simp
qed


section \<open>The ring layout\<close>

subsection \<open>A point on a circle\<close>

lemma sqrt3_bounds: "1.7320 < sqrt 3 \<and> sqrt (3::real) < 1.7321"
proof
  show "1.7320 < sqrt (3::real)" by (rule real_less_rsqrt) (simp add: power2_eq_square)
  show "sqrt (3::real) < 1.7321" by (rule real_less_lsqrt) (simp_all add: power2_eq_square)
qed

lemma sin_120: "sin (2 * pi / 3) = sqrt 3 / 2"
proof -
  have "sin (2 * pi / 3) = sin (pi - pi / 3)" by (simp add: field_simps)
  also have "\<dots> = sin (pi / 3)" by (rule sin_pi_minus)
  finally show ?thesis by (simp add: sin_60)
qed

lemma cos_120: "cos (2 * pi / 3) = - 1 / 2"
proof -
  have "cos (2 * pi / 3) = cos (pi - pi / 3)" by (simp add: field_simps)
  also have "\<dots> = - cos (pi / 3)" by (rule cos_pi_minus)
  finally show ?thesis by (simp add: cos_60)
qed

lemma sin_240: "sin (4 * pi / 3) = - sqrt 3 / 2"
proof -
  have "sin (4 * pi / 3) = sin (pi / 3 + pi)" by (simp add: field_simps)
  also have "\<dots> = - sin (pi / 3)" by (rule sin_periodic_pi)
  finally show ?thesis by (simp add: sin_60)
qed

lemma cos_240: "cos (4 * pi / 3) = - 1 / 2"
proof -
  have "cos (4 * pi / 3) = cos (pi / 3 + pi)" by (simp add: field_simps)
  also have "\<dots> = - cos (pi / 3)" by (rule cos_periodic_pi)
  finally show ?thesis by (simp add: cos_60)
qed

lemma sin_300: "sin (5 * pi / 3) = - sqrt 3 / 2"
proof -
  have "sin (5 * pi / 3) = sin (- (pi / 3) + 2 * pi)" by (simp add: field_simps)
  also have "\<dots> = sin (- (pi / 3))" by (rule sin_periodic)
  finally show ?thesis by (simp add: sin_60)
qed

lemma cos_300: "cos (5 * pi / 3) = 1 / 2"
proof -
  have "cos (5 * pi / 3) = cos (- (pi / 3) + 2 * pi)" by (simp add: field_simps)
  also have "\<dots> = cos (- (pi / 3))" by (rule cos_periodic)
  finally show ?thesis by (simp add: cos_60)
qed

text \<open>
  Claim C1. For every focus \<open>(fx, fy)\<close>, angle \<open>a\<close> and radius \<open>r\<close>,
  \<open>get_point_on_circle\<close> returns \<open>(fx + sin a * r, fy - cos a * r)\<close>; at angle 0 this is
  \<open>(fx, fy - r)\<close>; and around \<open>(0, 0)\<close> with radius 10 the points at 0, 60, ..., 300
  degrees are (0, -10), (8.66, -5), (8.66, 5), (0, 10), (-8.66, 5), (-8.66, -5) to two
  decimal places.
\<close>

theorem get_point_on_circle_formula:
  "get_point_on_circle (fx, fy) a r = (fx + sin a * r, fy - cos a * r)
   \<and> get_point_on_circle (fx, fy) 0 r = (fx, fy - r)
   \<and> get_point_on_circle (0, 0) 0 10 = (0, -10)
   \<and> agrees_2dp (fst (get_point_on_circle (0, 0) (pi / 3) 10)) 8.66
   \<and> snd (get_point_on_circle (0, 0) (pi / 3) 10) = -5
   \<and> agrees_2dp (fst (get_point_on_circle (0, 0) (2 * pi / 3) 10)) 8.66
   \<and> snd (get_point_on_circle (0, 0) (2 * pi / 3) 10) = 5
   \<and> get_point_on_circle (0, 0) pi 10 = (0, 10)
   \<and> agrees_2dp (fst (get_point_on_circle (0, 0) (4 * pi / 3) 10)) (-8.66)
   \<and> snd (get_point_on_circle (0, 0) (4 * pi / 3) 10) = 5
   \<and> agrees_2dp (fst (get_point_on_circle (0, 0) (5 * pi / 3) 10)) (-8.66)
   \<and> snd (get_point_on_circle (0, 0) (5 * pi / 3) 10) = -5"
  using sqrt3_bounds
  by (simp add: get_point_on_circle_def agrees_2dp_def sin_60 cos_60 sin_120 cos_120
      sin_240 cos_240 sin_300 cos_300 abs_less_iff)



subsection \<open>A full turn in steps of \<open>DEGREE_60\<close>\<close>



lemma sin_taylor7:
  "\<bar>sin x - (x - x^3 / 6 + x^5 / 120 - x^7 / 5040)\<bar> \<le> \<bar>x\<bar>^9 / 362880" for x :: real
proof -
  have sum9: "(\<Sum>m<9. f m) = f 0 + f 1 + f 2 + f 3 + f 4 + f 5 + f 6 + f 7 + f 8"
    for f :: "nat \<Rightarrow> real"
    by (simp add: eval_nat_numeral)
  have cs: "sin_coeff 0 = 0" "sin_coeff 1 = 1" "sin_coeff 2 = 0" "sin_coeff 3 = - 1 / 6"
    "sin_coeff 4 = 0" "sin_coeff 5 = 1 / 120" "sin_coeff 6 = 0" "sin_coeff 7 = - 1 / 5040"
    "sin_coeff 8 = 0"
    by (simp_all add: sin_coeff_def fact_numeral)
  have s: "(\<Sum>m<9. sin_coeff m * x ^ m) = x - x^3 / 6 + x^5 / 120 - x^7 / 5040"
    unfolding sum9 cs by simp
  have f: "(fact 9 :: real) = 362880"
    by (simp add: fact_numeral)
  have "\<bar>sin x - (\<Sum>m<9. sin_coeff m * x ^ m)\<bar> \<le> inverse (fact 9) * \<bar>x\<bar> ^ 9"
    by (rule Maclaurin_sin_bound)
  then have "\<bar>sin x - (x - x^3 / 6 + x^5 / 120 - x^7 / 5040)\<bar> \<le> inverse 362880 * \<bar>x\<bar> ^ 9"
    unfolding s f .
  also have "inverse 362880 * \<bar>x\<bar> ^ 9 = \<bar>x\<bar> ^ 9 / 362880"
    by simp
  finally show ?thesis .
qed

lemma sin_below_half: "sin (314159 / 600000 :: real) < 1 / 2"
proof -
  let ?x = "314159 / 600000 :: real"
  have "sin ?x \<le> (?x - ?x^3 / 6 + ?x^5 / 120 - ?x^7 / 5040) + \<bar>?x\<bar>^9 / 362880"
    using sin_taylor7 [of ?x] by (simp only: abs_le_iff) linarith
  also have "\<dots> < 1 / 2" by (simp add: power_divide)
  finally show ?thesis .
qed

lemma sin_above_half: "1 / 2 < sin (314161 / 600000 :: real)"
proof -
  let ?x = "314161 / 600000 :: real"
  have "1 / 2 < (?x - ?x^3 / 6 + ?x^5 / 120 - ?x^7 / 5040) - \<bar>?x\<bar>^9 / 362880"
    by (simp add: power_divide)
  also have "\<dots> \<le> sin ?x"
    using sin_taylor7 [of ?x] by (simp only: abs_le_iff) linarith
  finally show ?thesis .
qed

lemma pi_lower: "3.14159 < pi"
proof (rule ccontr)
  assume "\<not> 3.14159 < pi"
  then have le: "pi / 6 \<le> 314159 / 600000" by simp
  have "314159 / 600000 \<le> pi / 2" using pi_ge_two by simp
  moreover have "- (pi / 2) \<le> pi / 6" using pi_ge_zero by simp
  ultimately have "sin (pi / 6) \<le> sin (314159 / 600000)"
    using le by (intro sin_monotone_2pi_le) simp_all
  then show False using sin_below_half by (simp add: sin_30)
qed

lemma pi_upper: "pi < 3.14161"
proof (rule ccontr)
  assume "\<not> pi < 3.14161"
  then have le: "314161 / 600000 \<le> pi / 6" by simp
  have "pi / 6 \<le> pi / 2" using pi_ge_zero by simp
  moreover have "- (pi / 2) \<le> 314161 / 600000"
  proof -
    have "- (pi / 2) \<le> 0" by simp
    also have "(0::real) \<le> 314161 / 600000" by simp
    finally show ?thesis .
  qed
  ultimately have "sin (314161 / 600000) \<le> sin (pi / 6)"
    using le by (intro sin_monotone_2pi_le) simp_all
  then show False using sin_above_half by (simp add: sin_30)
qed


lemma full_turn_error: "\<bar>6.2832 - 2 * pi\<bar> \<le> 1 / 50000"
proof (rule abs_leI)
  show "6.2832 - 2 * pi \<le> 1 / 50000" using pi_lower by simp
  show "- (6.2832 - 2 * pi) \<le> 1 / 50000" using pi_upper by simp
qed

lemma sin_full_turn: "\<bar>sin (6 * DEGREE_60)\<bar> \<le> 1 / 50000"
proof -
  have "sin (6 * DEGREE_60) = sin ((6.2832 - 2 * pi) + 2 * pi)"
    by (simp add: DEGREE_60_def)
  also have "\<dots> = sin (6.2832 - 2 * pi)" by (rule sin_periodic)
  finally have "\<bar>sin (6 * DEGREE_60)\<bar> \<le> \<bar>6.2832 - 2 * pi\<bar>"
    using abs_sin_x_le_abs_x [of "6.2832 - 2 * pi"] by simp
  also note full_turn_error
  finally show ?thesis .
qed

lemma cos_full_turn: "\<bar>1 - cos (6 * DEGREE_60)\<bar> \<le> 1 / 50000"
proof -
  define d :: real where "d = (6.2832 - 2 * pi) / 2"
  have d: "\<bar>d\<bar> \<le> 1 / 100000" using full_turn_error by (simp add: d_def)
  have "6 * DEGREE_60 = 2 * d + 2 * pi"
    by (simp add: DEGREE_60_def d_def field_simps)
  then have "cos (6 * DEGREE_60) = cos (2 * d + 2 * pi)"
    by (simp only:)
  also have "\<dots> = cos (2 * d)" by (rule cos_periodic)
  also have "\<dots> = 1 - 2 * (sin d)\<^sup>2" by (rule cos_double_sin)
  finally have eq: "1 - cos (6 * DEGREE_60) = 2 * (sin d)\<^sup>2" by simp
  have "\<bar>sin d\<bar> \<le> 1 / 100000" using abs_sin_x_le_abs_x [of d] d by linarith
  then have "(sin d)\<^sup>2 \<le> (1 / 100000)\<^sup>2"
    by (metis abs_le_square_iff abs_of_nonneg zero_le_divide_1_iff zero_le_numeral)
  then have "2 * (sin d)\<^sup>2 \<le> 1 / 50000" by (simp add: power2_eq_square)
  moreover have "0 \<le> 2 * (sin d)\<^sup>2" by simp
  ultimately show ?thesis unfolding eq by simp
qed

text \<open>
  Claim C6. The loop of \<open>draw_1st_ring\<close> starts at the top point of the ring and adds
  \<open>DEGREE_60\<close> to the angle six times. The point it computes last, at the angle
  \<open>6 * DEGREE_60\<close>, is the first point of the ring again up to \<open>1 / 50000\<close> of the
  radius in each coordinate; the first point is \<open>get_point_on_circle\<close> at angle 0, that
  is \<open>(fx, fy - r)\<close>.
\<close>

theorem full_ring_closes:
  "\<exists>x y s'.
      draw_1st_ring_loop color s = Inr (x, y, 6 * DEGREE_60, s')
    \<and> (x, y) = get_point_on_circle (image_focus s) (6 * DEGREE_60) (of_int (circle_radius s))
    \<and> get_point_on_circle (image_focus s) 0 (of_int (circle_radius s))
        = (fst (image_focus s), snd (image_focus s) - of_int (circle_radius s))
    \<and> \<bar>x - fst (image_focus s)\<bar> \<le> \<bar>of_int (circle_radius s)\<bar> / 50000
    \<and> \<bar>y - (snd (image_focus s) - of_int (circle_radius s))\<bar>
        \<le> \<bar>of_int (circle_radius s)\<bar> / 50000"
proof -
  define r :: real where "r = of_int (circle_radius s)"
  define a :: real where "a = 6 * DEGREE_60"
  define p where "p = get_point_on_circle (image_focus s) a r"
  have x: "\<bar>sin a * r\<bar> \<le> \<bar>r\<bar> / 50000"
  proof -
    have "\<bar>sin a * r\<bar> = \<bar>sin a\<bar> * \<bar>r\<bar>" by (simp add: abs_mult)
    also have "\<dots> \<le> (1 / 50000) * \<bar>r\<bar>"
      using sin_full_turn by (intro mult_right_mono) (simp_all add: a_def)
    finally show ?thesis by simp
  qed
  have y: "\<bar>r - cos a * r\<bar> \<le> \<bar>r\<bar> / 50000"
  proof -
    have "r - cos a * r = (1 - cos a) * r" by (simp add: algebra_simps)
    then have "\<bar>r - cos a * r\<bar> = \<bar>1 - cos a\<bar> * \<bar>r\<bar>"
      by (simp only: abs_mult)
    also have "\<dots> \<le> (1 / 50000) * \<bar>r\<bar>"
      using cos_full_turn by (intro mult_right_mono) (simp_all add: a_def)
    finally show ?thesis by simp
  qed
  have px: "fst p - fst (image_focus s) = sin a * r"
    and py: "snd p - (snd (image_focus s) - r) = r - cos a * r"
    by (simp_all add: p_def get_point_on_circle_def)
  have "draw_1st_ring_loop color s = Inr (fst p, snd p, 6 * DEGREE_60,
      emit (circle_calls s (of_int (image_center s)) (of_int (image_center s - circle_radius s)) color
             @ concat (map (\<lambda>k. circle_calls s
                    (fst (get_point_on_circle (image_focus s) (k * DEGREE_60) (of_int (circle_radius s))))
                    (snd (get_point_on_circle (image_focus s) (k * DEGREE_60) (of_int (circle_radius s))))
                    color) [1, 2, 3, 4, 5])) s)"
    unfolding p_def a_def r_def by (rule draw_1st_ring_loop_eval)
  moreover have "(fst p, snd p) = get_point_on_circle (image_focus s) a r"
    by (simp add: p_def)
  moreover have "get_point_on_circle (image_focus s) 0 r
      = (fst (image_focus s), snd (image_focus s) - r)"
    by (simp add: get_point_on_circle_def)
  moreover have "\<bar>fst p - fst (image_focus s)\<bar> \<le> \<bar>r\<bar> / 50000"
    unfolding px by (rule x)
  moreover have "\<bar>snd p - (snd (image_focus s) - r)\<bar> \<le> \<bar>r\<bar> / 50000"
    unfolding py by (rule y)
  ultimately show ?thesis unfolding a_def r_def by blast
qed


section \<open>The animation frames of the yin-yang\<close>


lemma degrees_radians [simp]: "degrees (radians a) = a"
  by (simp add: degrees_def radians_def)

lemma keep_in_bounds_range:
  assumes "- 360 \<le> angle" and "angle \<le> 360"
  shows "- 180 \<le> keep_in_bounds angle \<and> keep_in_bounds angle \<le> 180"
  using assms by (simp add: keep_in_bounds_def)

lemma frames_rotations:
  assumes "\<bar>rotation\<bar> \<le> 180" and "- 360 \<le> angle" and "angle \<le> 360"
    and "gimp_item_transform_rotate r cx cy \<in> set (frames n angle rotation timer center new_size)"
  shows "- 180 \<le> degrees r \<and> degrees r \<le> 180"
  using assms(2-)
proof (induction n arbitrary: angle)
  case 0
  then show ?case by simp
next
  case (Suc n)
  let ?a = "keep_in_bounds angle"
  have a: "- 180 \<le> ?a \<and> ?a \<le> 180"
    using Suc.prems(1,2) by (rule keep_in_bounds_range)
  from Suc.prems(3) consider "r = radians ?a"
    | "gimp_item_transform_rotate r cx cy
         \<in> set (frames n (?a + rotation) rotation timer center new_size)"
    by (auto simp: Let_def)
  then show ?case
  proof cases
    case 1
    with a show ?thesis by simp
  next
    case 2
    moreover have "- 360 \<le> ?a + rotation" "?a + rotation \<le> 360"
      using a assms(1) by (simp_all add: abs_le_iff)
    ultimately show ?thesis using Suc.IH by blast
  qed
qed

lemma frames_1_02_rotations:
  assumes "\<bar>rotation\<bar> \<le> 180" and "- 360 \<le> angle" and "angle \<le> 360"
    and "gimp_item_transform_rotate r cx cy \<in> set (frames_1_02 n angle rotation timer center)"
  shows "- 180 \<le> degrees r \<and> degrees r \<le> 180"
  using assms(2-)
proof (induction n arbitrary: angle)
  case 0
  then show ?case by simp
next
  case (Suc n)
  let ?a = "keep_in_bounds angle"
  have a: "- 180 \<le> ?a \<and> ?a \<le> 180"
    using Suc.prems(1,2) by (rule keep_in_bounds_range)
  from Suc.prems(3) consider "r = radians ?a"
    | "gimp_item_transform_rotate r cx cy
         \<in> set (frames_1_02 n (?a + rotation) rotation timer center)"
    by (auto simp: Let_def)
  then show ?case
  proof cases
    case 1
    with a show ?thesis by simp
  next
    case 2
    moreover have "- 360 \<le> ?a + rotation" "?a + rotation \<le> 360"
      using a assms(1) by (simp_all add: abs_le_iff)
    ultimately show ?thesis using Suc.IH by blast
  qed
qed

lemma pair_index_sign:
  assumes "direction < 2"
  obtains sign :: real where "pair_index 1 (- 1) direction = Inr sign" and "\<bar>sign\<bar> = 1"
  using assms by (cases "direction = 0") (auto simp: pair_index_def)

lemma first_rotation:
  fixes frame_count sign :: real
  assumes "2 \<le> frame_count" and "\<bar>sign\<bar> = 1"
  shows "\<bar>360 / frame_count * sign\<bar> \<le> 180"
proof -
  have "\<bar>360 / frame_count * sign\<bar> = 360 / frame_count"
    using assms by (simp add: abs_mult)
  also have "\<dots> \<le> 180" using assms(1) by (simp add: field_simps)
  finally show ?thesis .
qed

lemma no_frames:
  fixes frame_count :: real
  assumes "frame_count < 2"
  shows "nat (py_int frame_count - 1) = 0"
proof -
  have "py_int frame_count \<le> 1"
    using assms by (auto simp: py_int_def floor_le_iff ceiling_le_iff)
  then show ?thesis by simp
qed

text \<open>
  Claim C9. In both versions of the script, whatever the frame count and for both
  directions, every angle handed to \<open>gimp_item_transform_rotate\<close> is between -180 and 180
  degrees: the one conditional adjustment per frame is enough. (For a frame count below 2
  the loop does not run.)
\<close>

theorem rotation_within_bounds:
  assumes "direction < 2"
  shows "\<exists>cs cs'.
      process_frame_count frame_count direction timer center new_size = Inr cs
    \<and> process_frame_count_1_02 frame_count direction timer center = Inr cs'
    \<and> (\<forall>r cx cy. gimp_item_transform_rotate r cx cy \<in> set cs \<union> set cs'
          \<longrightarrow> - 180 \<le> degrees r \<and> degrees r \<le> 180)"
proof (cases "frame_count > 1")
  case False
  then show ?thesis by (simp add: process_frame_count_def process_frame_count_1_02_def)
next
  case True
  obtain sign :: real where s: "pair_index 1 (- 1) direction = Inr sign" "\<bar>sign\<bar> = 1"
    using assms by (rule pair_index_sign)
  define rotation where "rotation = 360 / frame_count * sign"
  define n where "n = nat (py_int frame_count - 1)"
  have cs: "process_frame_count frame_count direction timer center new_size
      = Inr (frames n rotation rotation timer center new_size)"
    and cs': "process_frame_count_1_02 frame_count direction timer center
      = Inr (frames_1_02 n rotation rotation timer center)"
    using True s(1)
    by (simp_all add: process_frame_count_def process_frame_count_1_02_def rotation_def n_def
        Let_def)
  show ?thesis
  proof (cases "2 \<le> frame_count")
    case True
    then have rot: "\<bar>rotation\<bar> \<le> 180"
      unfolding rotation_def using s(2) by (rule first_rotation)
    then have "- 360 \<le> rotation" "rotation \<le> 360" by (simp_all add: abs_le_iff)
    with rot show ?thesis
      unfolding cs cs' by (auto dest: frames_rotations frames_1_02_rotations)
  next
    case False
    then have "n = 0" unfolding n_def by (intro no_frames) simp
    then show ?thesis unfolding cs cs' by simp
  qed
qed

text \<open>Three frames, counter-clockwise.\<close>

theorem rotation_within_bounds_witness:
  "(1::nat) < 2 \<and> (\<exists>cs cs'.
      process_frame_count 3 1 '''' 252 126 = Inr cs
    \<and> process_frame_count_1_02 3 1 '''' 252 = Inr cs'
    \<and> (\<forall>r cx cy. gimp_item_transform_rotate r cx cy \<in> set cs \<union> set cs'
          \<longrightarrow> - 180 \<le> degrees r \<and> degrees r \<le> 180))"
  using rotation_within_bounds [of 1 3 "''''" 252 126] by simp


section \<open>The perimeter of the flower\<close>

lemma third_pass_reads:
  assumes "extra_ring s = [Some a0, Some a1, Some a2, Some a3, Some a4, Some a5, Some a6,
     Some a7, Some a8, Some a9, Some a10, Some a11]"
  shows "\<exists>s'. perimeter_pass True [8, 10] angle1 angle2 color s = Inr s'
     \<and> extra_ring_reads s' = extra_ring_reads s @ [8, 9, 10, 10, 11, 0]"
  using assms
  by (simp add: perimeter_pass_def perimeter_circle_def py_range_2 py_range_3 Let_def
      draw_flower_circle_emit)

text \<open>
  Claim C2. Whenever the ring centres have been stored (as \<open>draw_3rd_ring\<close> does) and
  \<open>extra_ring\<close> has its 12 slots, \<open>draw_6th_ring\<close> ends without an error, and the indices at
  which it reads \<open>extra_ring\<close> are 0, 1, 2, 2, 3, 4 in the first pass, 4, 5, 6, 6, 7, 8 in the
  second and 8, 9, 10, 10, 11, 0 in the third: where \<open>i + k\<close> would be 12, the index 0 is
  read instead. Every read is at an index below 12.
\<close>

theorem draw_6th_ring_reads_in_bounds:
  assumes "ring_center s = map Some ps" and "length ps = 6" and "length (extra_ring s) = 12"
  shows "\<exists>s'. draw_6th_ring color s = Inr s'
     \<and> extra_ring_reads s'
         = extra_ring_reads s @ [0, 1, 2, 2, 3, 4] @ [4, 5, 6, 6, 7, 8] @ [8, 9, 10, 10, 11, 0]
     \<and> length (extra_ring s') = 12
     \<and> (\<forall>i \<in> set (drop (length (extra_ring_reads s)) (extra_ring_reads s')).
           i < length (extra_ring s'))"
proof -
  obtain p0 p1 p2 p3 p4 p5 where ps: "ps = [p0, p1, p2, p3, p4, p5]"
    using assms(2) by (rule length_6_obtain)
  obtain a0 a1 a2 a3 a4 a5 a6 a7 a8 a9 a10 a11
    where er: "extra_ring s = [a0, a1, a2, a3, a4, a5, a6, a7, a8, a9, a10, a11]"
    using assms(3) by (rule length_12_obtain)
  show ?thesis
    using assms(1) ps er
    by (simp add: draw_6th_ring_def perimeter_pass_def perimeter_circle_def py_range_6
        py_range_2 py_range_3 Let_def draw_flower_circle_emit)
qed

text \<open>The state of a flower of radius 600, with six points stored as ring centres.\<close>

theorem draw_6th_ring_reads_in_bounds_witness:
  "\<exists>s'. draw_6th_ring WHITE
       ((init_globals 600 0 CIRCLES [] 8 0 BLACK)
          \<lparr>ring_center := map Some [(0, 0), (1, 0), (2, 0), (3, 0), (4, 0), (5, 0)]\<rparr>) = Inr s'
     \<and> extra_ring_reads s' = [0, 1, 2, 2, 3, 4, 4, 5, 6, 6, 7, 8, 8, 9, 10, 10, 11, 0]"
  using draw_6th_ring_reads_in_bounds
    [of "(init_globals 600 0 CIRCLES [] 8 0 BLACK)
          \<lparr>ring_center := map Some [(0, 0), (1, 0), (2, 0), (3, 0), (4, 0), (5, 0)]\<rparr>"
        "[(0, 0), (1, 0), (2, 0), (3, 0), (4, 0), (5, 0)]" WHITE]
  by simp blast

section \<open>The colours of the flower\<close>

lemma random_colors_in_range:
  assumes "randint_contract rnd" and "c \<in> set (random_colors rnd n)"
  shows "rgb_color c"
proof -
  have "0 \<le> rnd k 0 255 \<and> rnd k 0 255 \<le> 255" for k
    using assms(1) by (simp add: randint_contract_def)
  with assms(2) show ?thesis
    by (auto simp: random_colors_def rgb_color_def)
qed

lemma sum_fst_nonneg:
  assumes "\<forall>c \<in> set cs. rgb_color c"
  shows "0 \<le> sum_list (map fst cs)" "0 \<le> sum_list (map (\<lambda>c. fst (snd c)) cs)"
    "0 \<le> sum_list (map (\<lambda>c. snd (snd c)) cs)"
  using assms by (induction cs) (auto simp: rgb_color_def)

text \<open>
  Claim C3. In Random Colors mode \<open>render_flower\<close> runs to its end; each component of each
  of the 7 ring colours is the value of one call \<open>random.randint(0, 255)\<close>, the calls being
  made in the order of the components, so every component is an integer between 0 and 255;
  and the frame colour is, component by component, \<open>int(sum / 7)\<close>, the truncated mean of
  the 7 ring colours. (How the values are distributed is a property of the random source,
  which is outside the script.)
\<close>

theorem random_colors_and_mean_frame:
  assumes "randint_contract rnd"
  shows "\<exists>s. render_flower symbol_radius RANDOM_COLORS flower_part color1 color2 color3 color4
         color5 color6 color7 line_w frame_w frame_col rnd = Inr s
     \<and> ring_colors s
         = map (\<lambda>i. (rnd (3 * i) 0 255, rnd (3 * i + 1) 0 255, rnd (3 * i + 2) 0 255)) [0..<7]
     \<and> (\<forall>c \<in> set (ring_colors s). rgb_color c)
     \<and> frame_color s = mean_color (ring_colors s)"
proof -
  obtain s where s: "render_flower symbol_radius RANDOM_COLORS flower_part color1 color2 color3
         color4 color5 color6 color7 line_w frame_w frame_col rnd = Inr s"
      "ring_colors s = random_colors rnd 0"
      "frame_color s
         = (sum_list (map fst (random_colors rnd 0)) div 7,
            sum_list (map (\<lambda>c. fst (snd c)) (random_colors rnd 0)) div 7,
            sum_list (map (\<lambda>c. snd (snd c)) (random_colors rnd 0)) div 7)"
    using render_flower_run [of symbol_radius RANDOM_COLORS flower_part color1 color2 color3
        color4 color5 color6 color7 line_w frame_w frame_col rnd]
    by auto
  have range: "\<forall>c \<in> set (random_colors rnd 0). rgb_color c"
    using assms by (auto intro: random_colors_in_range)
  have "frame_color s = mean_color (random_colors rnd 0)"
    unfolding s(3) mean_color_def by (simp add: py_int_div7 sum_fst_nonneg [OF range])
  moreover have "random_colors rnd 0
      = map (\<lambda>i. (rnd (3 * i) 0 255, rnd (3 * i + 1) 0 255, rnd (3 * i + 2) 0 255)) [0..<7]"
    by (simp add: random_colors_def)
  ultimately show ?thesis using s(1,2) range by auto
qed

text \<open>A source that steps through its range.\<close>

theorem random_colors_and_mean_frame_witness:
  "randint_contract (\<lambda>n a b. a + (int n * 37) mod (b - a + 1))
   \<and> (\<exists>s. render_flower 600 RANDOM_COLORS CIRCLES BLACK BLACK BLACK BLACK BLACK BLACK BLACK
          8 0 BLACK (\<lambda>n a b. a + (int n * 37) mod (b - a + 1)) = Inr s
        \<and> frame_color s = mean_color (ring_colors s))"
proof -
  have c: "randint_contract (\<lambda>n a b. a + (int n * 37) mod (b - a + 1))"
    unfolding randint_contract_def
  proof (intro allI impI)
    fix n :: nat and a b :: int
    assume "a \<le> b"
    then have pos: "0 < b - a + 1" by simp
    have "0 \<le> (int n * 37) mod (b - a + 1)"
      using pos by (rule pos_mod_sign)
    moreover have "(int n * 37) mod (b - a + 1) < b - a + 1"
      using pos by (rule pos_mod_bound)
    ultimately show "a \<le> a + (int n * 37) mod (b - a + 1) \<and> a + (int n * 37) mod (b - a + 1) \<le> b"
      by linarith
  qed
  from random_colors_and_mean_frame [OF c, of 600 CIRCLES BLACK BLACK BLACK BLACK BLACK BLACK
      BLACK 8 0 BLACK]
  show ?thesis using c by blast
qed



section \<open>The undo group\<close>

text \<open>
  Claim C8. Every run of \<open>render_flower\<close>, and every run of \<open>render_yin_yang\<close> on the values
  its dialog can give (an eye divisor other than 0, one of the two directions, a first flow
  colour with components between 0 and 255), ends without an error, and its sequence of host
  calls has exactly one \<open>gimp_image_undo_group_start\<close> and exactly one
  \<open>gimp_image_undo_group_end\<close>, the start first, with no selection, fill, merge or
  transform before the start or after the end.
\<close>

theorem one_undo_group_per_render:
  assumes "eye_divisor \<noteq> 0" and "direction < 2" and "rgb_color flow_color_1"
  shows "(\<exists>s. render_flower symbol_radius mode flower_part color1 color2 color3 color4 color5
            color6 color7 line_w frame_w frame_col rnd = Inr s
          \<and> single_undo_group (trace s))
     \<and> (\<exists>cs. render_yin_yang symbol_diameter mode2 flow_color_1 flow_color_2 rim_color
            flow_pattern_1 flow_pattern_2 rim_width eye_divisor direction frame_count
            frame_timer = Inr cs
          \<and> single_undo_group cs)"
proof
  show "\<exists>s. render_flower symbol_radius mode flower_part color1 color2 color3 color4 color5
            color6 color7 line_w frame_w frame_col rnd = Inr s
          \<and> single_undo_group (trace s)"
    using render_flower_run [of symbol_radius mode flower_part color1 color2 color3 color4
        color5 color6 color7 line_w frame_w frame_col rnd]
    by blast
  show "\<exists>cs. render_yin_yang symbol_diameter mode2 flow_color_1 flow_color_2 rim_color
            flow_pattern_1 flow_pattern_2 rim_width eye_divisor direction frame_count
            frame_timer = Inr cs
          \<and> single_undo_group cs"
    using assms by (rule render_yin_yang_run)
qed

text \<open>The defaults of the two dialogs, with an animation of 12 frames.\<close>

theorem one_undo_group_per_render_witness:
  "(14 :: real) \<noteq> 0 \<and> (0 :: nat) < 2 \<and> rgb_color (0, 0, 0)
   \<and> (\<exists>s. render_flower 600 2 2 (0, 255, 0) (0, 230, 0) (0, 204, 0) (0, 179, 0) (0, 153, 0)
          (0, 128, 0) (0, 102, 0) 8 0 (0, 77, 0) (\<lambda>n a b. a) = Inr s
        \<and> single_undo_group (trace s))
   \<and> (\<exists>cs. render_yin_yang 500 0 (0, 0, 0) (255, 255, 255) (128, 128, 128) [] [] 0 14 0 12 100
          = Inr cs
        \<and> single_undo_group cs)"
  using one_undo_group_per_render
    [of 14 0 "(0, 0, 0)" 600 2 2 "(0, 255, 0)" "(0, 230, 0)" "(0, 204, 0)" "(0, 179, 0)"
        "(0, 153, 0)" "(0, 128, 0)" "(0, 102, 0)" 8 0 "(0, 77, 0)" "\<lambda>n a b. a"
        500 0 "(255, 255, 255)" "(128, 128, 128)" "[]" "[]" 0 12 100]
  by (simp add: rgb_color_def)

section \<open>Borders of width zero\<close>





section \<open>The colour of the second flow\<close>

lemma set_colors_by_mode:
  "set_colors YY_INVERTED_COLOR (r, g, b) flow_color_2 = Inr (255 - r, 255 - g, 255 - b)"
  "set_colors YY_POLAR_HUE flow_color_1 flow_color_2 = invert_hls_channel 0 flow_color_1"
  "set_colors YY_POLAR_LIGHTNESS flow_color_1 flow_color_2 = invert_hls_channel 1 flow_color_1"
  "set_colors YY_POLAR_SATURATION flow_color_1 flow_color_2 = invert_hls_channel 2 flow_color_1"
  by (simp_all add: set_colors_def YY_INVERTED_COLOR_def YY_POLAR_HUE_def
      YY_POLAR_LIGHTNESS_def YY_POLAR_SATURATION_def)

lemma mode_options_by_name:
  "mode_options ! nat YY_INVERTED_COLOR = ''Flow Color 1 and Polar Color''"
  "mode_options ! nat YY_POLAR_HUE = ''Flow Color 1 and Polar Hue''"
  "mode_options ! nat YY_POLAR_LIGHTNESS = ''Flow Color 1 and Polar Lightness''"
  "mode_options ! nat YY_POLAR_SATURATION = ''Flow Color 1 and Polar Saturation''"
  by (simp_all add: mode_options_def YY_INVERTED_COLOR_def YY_POLAR_HUE_def
      YY_POLAR_LIGHTNESS_def YY_POLAR_SATURATION_def)

text \<open>The rules that compute a derivation on a given colour, rounding by rounding.\<close>

lemmas hls_defs =
  invert_hls_channel_def rgb_to_hls_def hls_to_rgb_def hls_v_def mod_1_def
  ONE_THIRD_def ONE_SIXTH_def TWO_THIRD_def Let_def py_int_def float_eval

text \<open>
  Claim C5. In version 1.05 each of the four polar modes is chosen by the option of its name
  and does what the claim says (\<open>set_colors_by_mode\<close>, \<open>mode_options_by_name\<close>). In version
  1.02 the option named Polar Lightness has index 3, and for index 3 the script inverts the
  RGB components: for red it gives cyan, where the lightness of red replaced by
  \<open>1 - l\<close> gives red again, as version 1.05 does under the same name.
\<close>

theorem polar_lightness_1_02_inverts_rgb:
  "mode_options_1_02 ! 3 = ''Flow Color 1 and Polar Lightness''
   \<and> set_colors_1_02 3 (255, 0, 0) (255, 255, 255) = Inr (0, 255, 255)
   \<and> invert_hls_channel 1 (255, 0, 0) = Inr (255, 0, 0)
   \<and> mode_options ! 4 = ''Flow Color 1 and Polar Lightness''
   \<and> set_colors 4 (255, 0, 0) (255, 255, 255) = Inr (255, 0, 0)"
  by (simp add: mode_options_1_02_def set_colors_1_02_def mode_options_def set_colors_def
      YY_INVERTED_COLOR_def YY_POLAR_HUE_def YY_POLAR_LIGHTNESS_def YY_POLAR_SATURATION_def
      hls_defs)
section \<open>Inverting a channel twice\<close>

text \<open>
  Pure green, in Polar Saturation mode: its saturation 1 becomes 0, which gives a grey and
  loses the hue; the grey's saturation 0 becomes 1 with the hue 0, which gives a red.
\<close>

theorem saturation_twice_counterexample:
  "set_colors YY_POLAR_SATURATION (0, 255, 0) (255, 255, 255) = Inr (127, 127, 127)
   \<and> set_colors YY_POLAR_SATURATION (127, 127, 127) (255, 255, 255) = Inr (254, 0, 0)"
  by (simp add: set_colors_by_mode hls_defs)

text \<open>
  In Polar Hue mode the rounding shows: the green component of \<open>(200, 100, 2)\<close> comes back
  from the first derivation as the double just below 2, which \<open>int\<close> truncates to 1, and the
  second derivation loses one more in two components.
\<close>

lemma hue_twice_example:
  "set_colors YY_POLAR_HUE (200, 100, 2) (255, 255, 255) = Inr (200, 1, 100)"
  "set_colors YY_POLAR_HUE (200, 1, 100) (255, 255, 255) = Inr (200, 99, 0)"
  by (simp_all add: set_colors_by_mode hls_defs)

text \<open>
  Claim C4. For every colour with components in 0..255, the Polar Hue derivation applied
  twice runs without error and gives a colour that differs from the first by at most 2 in
  each component, and so does the Polar Lightness derivation. The Polar Saturation
  derivation does not: it sends pure green to a grey, and the grey to a red.
\<close>

theorem hue_and_lightness_twice_within_2:
  assumes "rgb_color c"
  shows "(\<exists>e. and_then (set_colors YY_POLAR_HUE c d) (\<lambda>c'. set_colors YY_POLAR_HUE c' d) = Inr e
        \<and> within_tolerance 2 c e)
     \<and> (\<exists>e. and_then (set_colors YY_POLAR_LIGHTNESS c d)
            (\<lambda>c'. set_colors YY_POLAR_LIGHTNESS c' d) = Inr e
        \<and> within_tolerance 2 c e)"
  using hue_twice [OF assms] lightness_twice [OF assms]
  unfolding set_colors_by_mode by auto

theorem hue_and_lightness_twice_within_2_witness:
  "rgb_color (200, 100, 2)
   \<and> (\<exists>e. and_then (set_colors YY_POLAR_HUE (200, 100, 2) (255, 255, 255))
          (\<lambda>c'. set_colors YY_POLAR_HUE c' (255, 255, 255)) = Inr e
        \<and> within_tolerance 2 (200, 100, 2) e)
   \<and> (\<exists>e. and_then (set_colors YY_POLAR_LIGHTNESS (200, 100, 2) (255, 255, 255))
          (\<lambda>c'. set_colors YY_POLAR_LIGHTNESS c' (255, 255, 255)) = Inr e
        \<and> within_tolerance 2 (200, 100, 2) e)"
  using hue_and_lightness_twice_within_2 [of "(200, 100, 2)" "(255, 255, 255)"]
  by (simp add: rgb_color_def)

end
